theory Spec2Isabelle
  imports Complex_Main "HOL-Library.List_Lexorder" "HOL-Library.Char_ord"
begin

section \<open>JavaScript values\<close>

text \<open>
  The pipeline of \<^verbatim>\<open>api.ts\<close> and \<^verbatim>\<open>formatters.ts\<close> works on values of type
  \<^verbatim>\<open>any\<close>: whatever \<^verbatim>\<open>JSON.parse\<close> made of an upstream body or of a cache entry.
  The embedding therefore starts from a datatype of JavaScript values and writes out the
  coercions the source relies on (truthiness, \<^verbatim>\<open>Number\<close>, property reads on
  \<^verbatim>\<open>null\<close>, \<^verbatim>\<open>||\<close> and \<^verbatim>\<open>??\<close>).

  Numbers are IEEE doubles in the source. Here a finite number is an exact rational, and
  \<open>NaN\<close>, \<open>+Infinity\<close> and \<open>-Infinity\<close> are values of their own; rounding, overflow
  and the sign of zero are not modelled.
\<close>

datatype jsnum = Fin rat | NaN | PInf | NInf

fun js_lt :: "jsnum \<Rightarrow> jsnum \<Rightarrow> bool" where
  "js_lt (Fin x) (Fin y) = (x < y)"
| "js_lt (Fin x) PInf = True"
| "js_lt NInf (Fin y) = True"
| "js_lt NInf PInf = True"
| "js_lt _ _ = False"

definition js_gt :: "jsnum \<Rightarrow> jsnum \<Rightarrow> bool" where
  "js_gt a b = js_lt b a"

fun js_neg :: "jsnum \<Rightarrow> jsnum" where
  "js_neg (Fin x) = Fin (- x)"
| "js_neg NaN = NaN"
| "js_neg PInf = NInf"
| "js_neg NInf = PInf"

fun js_add :: "jsnum \<Rightarrow> jsnum \<Rightarrow> jsnum" where
  "js_add (Fin x) (Fin y) = Fin (x + y)"
| "js_add NaN _ = NaN"
| "js_add _ NaN = NaN"
| "js_add PInf NInf = NaN"
| "js_add NInf PInf = NaN"
| "js_add PInf _ = PInf"
| "js_add NInf _ = NInf"
| "js_add _ PInf = PInf"
| "js_add _ NInf = NInf"

definition js_sub :: "jsnum \<Rightarrow> jsnum \<Rightarrow> jsnum" where
  "js_sub a b = js_add a (js_neg b)"

fun js_mul :: "jsnum \<Rightarrow> jsnum \<Rightarrow> jsnum" where
  "js_mul (Fin x) (Fin y) = Fin (x * y)"
| "js_mul NaN _ = NaN"
| "js_mul _ NaN = NaN"
| "js_mul a b =
     (if a = Fin 0 \<or> b = Fin 0 then NaN
      else if js_lt a (Fin 0) = js_lt b (Fin 0) then PInf else NInf)"

fun js_div :: "jsnum \<Rightarrow> jsnum \<Rightarrow> jsnum" where
  "js_div (Fin x) (Fin y) =
     (if y = 0 then (if x = 0 then NaN else if 0 < x then PInf else NInf)
      else Fin (x / y))"
| "js_div (Fin x) PInf = Fin 0"
| "js_div (Fin x) NInf = Fin 0"
| "js_div PInf (Fin y) = (if y < 0 then NInf else PInf)"
| "js_div NInf (Fin y) = (if y < 0 then PInf else NInf)"
| "js_div _ _ = NaN"

text \<open>\<^verbatim>\<open>Math.max\<close> of two numbers.\<close>

definition js_max :: "jsnum \<Rightarrow> jsnum \<Rightarrow> jsnum" where
  "js_max a b = (if a = NaN \<or> b = NaN then NaN else if js_lt a b then b else a)"

datatype jsval =
    Undefined
  | Null
  | Boolean bool
  | Num jsnum
  | Str string
  | Arr "jsval list"
  | Obj "(string \<times> jsval) list"

text \<open>
  An object is the list of its own properties in insertion order; the lists that stand for
  parsed JSON have distinct keys. What the source can throw:
\<close>

datatype error =
    TypeError
  | RangeError
  | SyntaxError
  | QuotaExceededError
  | FetchError
  | EmptyDataError

definition bindE :: "error + 'a \<Rightarrow> ('a \<Rightarrow> error + 'b) \<Rightarrow> error + 'b" where
  "bindE m f = (case m of Inl e \<Rightarrow> Inl e | Inr x \<Rightarrow> f x)"

text \<open>\<^verbatim>\<open>xs.map(f)\<close> for a callback that may throw: the first throw ends the call.\<close>

fun mapE :: "('a \<Rightarrow> error + 'b) \<Rightarrow> 'a list \<Rightarrow> error + 'b list" where
  "mapE f [] = Inr []"
| "mapE f (x # xs) =
     (case f x of Inl e \<Rightarrow> Inl e
      | Inr y \<Rightarrow> (case mapE f xs of Inl e \<Rightarrow> Inl e | Inr ys \<Rightarrow> Inr (y # ys)))"

text \<open>\<^verbatim>\<open>xs.forEach(f)\<close> for a callback that updates a state and may throw.\<close>

fun foldE :: "('s \<Rightarrow> 'a \<Rightarrow> error + 's) \<Rightarrow> 's \<Rightarrow> 'a list \<Rightarrow> error + 's" where
  "foldE f s [] = Inr s"
| "foldE f s (x # xs) = (case f s x of Inl e \<Rightarrow> Inl e | Inr s' \<Rightarrow> foldE f s' xs)"

text \<open>
  The builtins of the JavaScript runtime that read or print text are parameters of the
  model: \<^verbatim>\<open>Number(s)\<close> and \<^verbatim>\<open>parseFloat(s)\<close> on a string, \<^verbatim>\<open>Date.parse\<close>,
  the calendar day \<^verbatim>\<open>toISOString().split('T')[0]\<close> of a valid time value, the decimal
  text of a finite number, and the local day and month of a time value.
\<close>

record builtins =
  str_to_num :: "string \<Rightarrow> jsnum"
  parse_float :: "string \<Rightarrow> jsnum"
  date_parse :: "string \<Rightarrow> jsnum"
  iso_date :: "rat \<Rightarrow> string"
  num_to_str :: "rat \<Rightarrow> string"
  local_date :: "jsnum \<Rightarrow> jsnum"
  local_month :: "jsnum \<Rightarrow> jsnum"

definition truthy :: "jsval \<Rightarrow> bool" where
  "truthy v =
     (case v of
        Undefined \<Rightarrow> False
      | Null \<Rightarrow> False
      | Boolean b \<Rightarrow> b
      | Num n \<Rightarrow> n \<noteq> NaN \<and> n \<noteq> Fin 0
      | Str s \<Rightarrow> s \<noteq> []
      | Arr _ \<Rightarrow> True
      | Obj _ \<Rightarrow> True)"

text \<open>\<^verbatim>\<open>a || b\<close> on values already read.\<close>

definition js_or :: "jsval \<Rightarrow> jsval \<Rightarrow> jsval" where
  "js_or a b = (if truthy a then a else b)"

fun join_with :: "string \<Rightarrow> string list \<Rightarrow> string" where
  "join_with s [] = []"
| "join_with s [x] = x"
| "join_with s (x # y # r) = x @ s @ join_with s (y # r)"

definition num_str :: "builtins \<Rightarrow> jsnum \<Rightarrow> string" where
  "num_str bi n =
     (case n of Fin q \<Rightarrow> num_to_str bi q | NaN \<Rightarrow> ''NaN''
      | PInf \<Rightarrow> ''Infinity'' | NInf \<Rightarrow> ''-Infinity'')"

text \<open>\<^verbatim>\<open>String(v)\<close>: an array joins its elements with commas, \<^verbatim>\<open>null\<close> and
  \<^verbatim>\<open>undefined\<close> elements as empty text.\<close>

fun to_str :: "builtins \<Rightarrow> jsval \<Rightarrow> string" where
  "to_str bi Undefined = ''undefined''"
| "to_str bi Null = ''null''"
| "to_str bi (Boolean b) = (if b then ''true'' else ''false'')"
| "to_str bi (Num n) = num_str bi n"
| "to_str bi (Str s) = s"
| "to_str bi (Arr xs) =
     join_with '','' (map (\<lambda>x. if x = Undefined \<or> x = Null then [] else to_str bi x) xs)"
| "to_str bi (Obj kvs) = ''[object Object]''"

text \<open>\<^verbatim>\<open>Number(v)\<close>, also the coercion of \<^verbatim>\<open>-\<close>, \<^verbatim>\<open>*\<close> and of a comparison
  with a number.\<close>

definition to_number :: "builtins \<Rightarrow> jsval \<Rightarrow> jsnum" where
  "to_number bi v =
     (case v of
        Undefined \<Rightarrow> NaN
      | Null \<Rightarrow> Fin 0
      | Boolean b \<Rightarrow> (if b then Fin 1 else Fin 0)
      | Num n \<Rightarrow> n
      | Str s \<Rightarrow> str_to_num bi s
      | Arr xs \<Rightarrow> str_to_num bi (to_str bi v)
      | Obj kvs \<Rightarrow> str_to_num bi (to_str bi v))"

definition digit_char :: "nat \<Rightarrow> char" where
  "digit_char d = ''0123456789'' ! d"

fun dec_str :: "nat \<Rightarrow> string" where
  "dec_str n = (if n < 10 then [digit_char n] else dec_str (n div 10) @ [digit_char (n mod 10)])"

declare dec_str.simps [simp del]

definition idx_of_key :: "string \<Rightarrow> nat \<Rightarrow> nat option" where
  "idx_of_key k n = find (\<lambda>i. dec_str i = k) [0..<n]"

text \<open>
  \<^verbatim>\<open>v.k\<close> and \<^verbatim>\<open>v[k]\<close>: a \<^verbatim>\<open>TypeError\<close> on \<^verbatim>\<open>null\<close> and \<^verbatim>\<open>undefined\<close>,
  \<^verbatim>\<open>undefined\<close> for a property that is not there. (None of the keys the source reads
  is a property of a prototype.)
\<close>

definition get_prop :: "jsval \<Rightarrow> string \<Rightarrow> error + jsval" where
  "get_prop v k =
     (case v of
        Undefined \<Rightarrow> Inl TypeError
      | Null \<Rightarrow> Inl TypeError
      | Boolean b \<Rightarrow> Inr Undefined
      | Num n \<Rightarrow> Inr Undefined
      | Str s \<Rightarrow>
          Inr (if k = ''length'' then Num (Fin (of_nat (length s)))
               else (case idx_of_key k (length s) of
                       Some i \<Rightarrow> Str [s ! i] | None \<Rightarrow> Undefined))
      | Arr xs \<Rightarrow>
          Inr (if k = ''length'' then Num (Fin (of_nat (length xs)))
               else (case idx_of_key k (length xs) of
                       Some i \<Rightarrow> xs ! i | None \<Rightarrow> Undefined))
      | Obj kvs \<Rightarrow> Inr (case map_of kvs k of Some x \<Rightarrow> x | None \<Rightarrow> Undefined))"

definition get_index :: "jsval \<Rightarrow> nat \<Rightarrow> error + jsval" where
  "get_index v i = get_prop v (dec_str i)"

text \<open>\<^verbatim>\<open>k in v\<close>: a \<^verbatim>\<open>TypeError\<close> unless \<open>v\<close> is an object or an array.\<close>

definition has_prop :: "string \<Rightarrow> jsval \<Rightarrow> error + bool" where
  "has_prop k v =
     (case v of
        Obj kvs \<Rightarrow> Inr (k \<in> set (map fst kvs))
      | Arr xs \<Rightarrow> Inr (k = ''length'' \<or> idx_of_key k (length xs) \<noteq> None)
      | _ \<Rightarrow> Inl TypeError)"

definition is_array :: "jsval \<Rightarrow> bool" where
  "is_array v = (case v of Arr _ \<Rightarrow> True | _ \<Rightarrow> False)"

text \<open>\<^verbatim>\<open>item.k1 || item.k2 || ... || item.kn\<close>\<close>

fun prop_or :: "jsval \<Rightarrow> string list \<Rightarrow> error + jsval" where
  "prop_or item [] = Inr Undefined"
| "prop_or item [k] = get_prop item k"
| "prop_or item (k # ks) =
     (case get_prop item k of Inl e \<Rightarrow> Inl e
      | Inr v \<Rightarrow> if truthy v then Inr v else prop_or item ks)"

text \<open>\<^verbatim>\<open>item.k1 ?? item.k2 ?? ... ?? d\<close>\<close>

fun prop_nullish :: "jsval \<Rightarrow> string list \<Rightarrow> jsval \<Rightarrow> error + jsval" where
  "prop_nullish item [] d = Inr d"
| "prop_nullish item (k # ks) d =
     (case get_prop item k of Inl e \<Rightarrow> Inl e
      | Inr v \<Rightarrow> if v = Undefined \<or> v = Null then prop_nullish item ks d else Inr v)"

subsection \<open>Dates\<close>

text \<open>
  \<^verbatim>\<open>new Date(v).getTime()\<close>: text is parsed, anything else is a number clipped to the
  range of time values and truncated; an invalid date has the time value \<open>NaN\<close>.
\<close>

definition time_clip :: "jsnum \<Rightarrow> jsnum" where
  "time_clip n =
     (case n of
        Fin q \<Rightarrow>
          if 8640000000000000 < \<bar>q\<bar> then NaN
          else Fin (of_int (if 0 \<le> q then \<lfloor>q\<rfloor> else \<lceil>q\<rceil>))
      | _ \<Rightarrow> NaN)"

definition date_time :: "builtins \<Rightarrow> jsval \<Rightarrow> jsnum" where
  "date_time bi v =
     (case v of
        Str s \<Rightarrow> date_parse bi s
      | Arr xs \<Rightarrow> date_parse bi (to_str bi v)
      | Obj kvs \<Rightarrow> date_parse bi (to_str bi v)
      | _ \<Rightarrow> time_clip (to_number bi v))"

text \<open>\<^verbatim>\<open>new Date(v).toISOString().split('T')[0]\<close>: \<^verbatim>\<open>toISOString\<close> throws a
  \<^verbatim>\<open>RangeError\<close> on an invalid date.\<close>

definition to_iso_date :: "builtins \<Rightarrow> jsval \<Rightarrow> error + string" where
  "to_iso_date bi v =
     (case date_time bi v of Fin q \<Rightarrow> Inr (iso_date bi q) | _ \<Rightarrow> Inl RangeError)"

section \<open>Breadth payloads (api.ts)\<close>

text \<open>The closure \<^verbatim>\<open>calc\<close> of both mappers: \<^verbatim>\<open>total > 0 ? (c / total) * 100 : 0\<close>.\<close>

definition calc :: "jsnum \<Rightarrow> jsnum \<Rightarrow> jsnum" where
  "calc tot c = (if js_gt tot (Fin 0) then js_mul (js_div c tot) (Fin 100) else Fin 0)"

definition breadth_point ::
  "jsval \<Rightarrow> jsval \<Rightarrow> jsnum \<Rightarrow> jsnum \<Rightarrow> jsnum \<Rightarrow> jsnum \<Rightarrow> jsval" where
  "breadth_point d ts tot c20 c50 c200 =
     Obj [(''date'', d), (''timestamp'', ts), (''total'', Num tot),
          (''count20'', Num c20), (''count50'', Num c50), (''count200'', Num c200),
          (''ma20'', Num (calc tot c20)), (''ma50'', Num (calc tot c50)),
          (''ma200'', Num (calc tot c200))]"

text \<open>The callback of \<^verbatim>\<open>data.map\<close> in \<^verbatim>\<open>mapBreadthData\<close>.\<close>

definition mapBreadthItem :: "builtins \<Rightarrow> jsval \<Rightarrow> error + jsval" where
  "mapBreadthItem bi item =
     bindE (prop_or item [''date'', ''Date'', ''time'', ''t'']) (\<lambda>rawDate.
     bindE (get_prop item ''total'') (\<lambda>rawTotal.
     bindE (prop_nullish item [''ma20'', ''avg_ma20'', ''pct_ma20''] (Num (Fin 0))) (\<lambda>v20.
     bindE (prop_nullish item [''ma50'', ''avg_ma50'', ''pct_ma50''] (Num (Fin 0))) (\<lambda>v50.
     bindE (prop_nullish item [''ma200'', ''avg_ma200'', ''pct_ma200''] (Num (Fin 0))) (\<lambda>v200.
       let parsed = (case rawDate of Str s \<Rightarrow> Num (date_parse bi s) | _ \<Rightarrow> rawDate);
           timestamp =
             (case parsed of
                Num n \<Rightarrow> if js_lt n (Fin 10000000000) then Num (js_mul n (Fin 1000)) else parsed
              | _ \<Rightarrow> parsed);
           tot = to_number bi (js_or rawTotal (Num (Fin 0)))
       in bindE (to_iso_date bi timestamp) (\<lambda>d.
            Inr (breadth_point (Str d) timestamp tot
                   (to_number bi v20) (to_number bi v50) (to_number bi v200))))))))"

text \<open>\<^verbatim>\<open>d.timestamp > 0\<close>\<close>

definition positive_timestamp :: "builtins \<Rightarrow> jsval \<Rightarrow> bool" where
  "positive_timestamp bi d =
     (case get_prop d ''timestamp'' of
        Inl e \<Rightarrow> False
      | Inr ts \<Rightarrow> js_gt (to_number bi ts) (Fin 0))"

definition mapBreadthData :: "builtins \<Rightarrow> jsval list \<Rightarrow> error + jsval list" where
  "mapBreadthData bi data =
     bindE (mapE (mapBreadthItem bi) data) (\<lambda>pts. Inr (filter (positive_timestamp bi) pts))"

subsection \<open>The complex shape\<close>

text \<open>
  \<^verbatim>\<open>Map\<close> compares keys with SameValueZero: primitives by value (\<open>NaN\<close> equals
  \<open>NaN\<close>), objects and arrays by reference. Every object of a parsed JSON text is a
  reference of its own, so two keys that are objects or arrays are never the same key.
\<close>

definition same_value_zero :: "jsval \<Rightarrow> jsval \<Rightarrow> bool" where
  "same_value_zero a b = (case a of Arr _ \<Rightarrow> False | Obj _ \<Rightarrow> False | _ \<Rightarrow> a = b)"

text \<open>A \<^verbatim>\<open>Map\<close> is the list of its entries in insertion order.\<close>

definition map_has :: "(jsval \<times> 'v) list \<Rightarrow> jsval \<Rightarrow> bool" where
  "map_has m k = list_ex (\<lambda>kv. same_value_zero (fst kv) k) m"

fun map_set :: "(jsval \<times> 'v) list \<Rightarrow> jsval \<Rightarrow> 'v \<Rightarrow> (jsval \<times> 'v) list" where
  "map_set [] k v = [(k, v)]"
| "map_set ((k', v') # m) k v =
     (if same_value_zero k' k then (k', v) # m else (k', v') # map_set m k v)"

fun map_update :: "(jsval \<times> 'v) list \<Rightarrow> jsval \<Rightarrow> ('v \<Rightarrow> 'v) \<Rightarrow> (jsval \<times> 'v) list" where
  "map_update [] k f = []"
| "map_update ((k', v') # m) k f =
     (if same_value_zero k' k then (k', f v') # m else (k', v') # map_update m k f)"

text \<open>The object \<^verbatim>\<open>{ date, total: 0 }\<close> of \<^verbatim>\<open>mergeSeries\<close> and the count
  properties it gains; \<open>None\<close> is a property not yet set.\<close>

record entry =
  e_date :: jsval
  e_total :: jsnum
  e_count20 :: "jsnum option"
  e_count50 :: "jsnum option"
  e_count200 :: "jsnum option"

datatype countProp = Count20 | Count50 | Count200

fun set_count :: "countProp \<Rightarrow> jsnum \<Rightarrow> entry \<Rightarrow> entry" where
  "set_count Count20 n e = e\<lparr>e_count20 := Some n\<rparr>"
| "set_count Count50 n e = e\<lparr>e_count50 := Some n\<rparr>"
| "set_count Count200 n e = e\<lparr>e_count200 := Some n\<rparr>"

text \<open>
  The callback of \<^verbatim>\<open>dataObj[key].forEach\<close>. The entry is the one already stored under
  the date, or a new one appended to the map (always a new one when the date is an object
  or an array: \<^verbatim>\<open>merged.get(date)\<close> then finds it by its reference).
\<close>

definition mergeSeriesItem ::
  "builtins \<Rightarrow> countProp \<Rightarrow> (jsval \<times> entry) list \<Rightarrow> jsval \<Rightarrow> error + (jsval \<times> entry) list" where
  "mergeSeriesItem bi cp merged item =
     bindE (get_prop item ''date'') (\<lambda>date.
     bindE (get_prop item ''total'') (\<lambda>tot.
     bindE (get_prop item ''value'') (\<lambda>val.
       let upd = (\<lambda>e. set_count cp (parse_float bi (to_str bi val))
                    (if truthy tot then e\<lparr>e_total := js_max (e_total e) (to_number bi tot)\<rparr> else e));
           fresh = \<lparr>e_date = date, e_total = Fin 0, e_count20 = None, e_count50 = None,
                    e_count200 = None\<rparr>
       in Inr (if map_has merged date then map_update merged date upd
               else merged @ [(date, upd fresh)]))))"

definition mergeSeries ::
  "builtins \<Rightarrow> jsval \<Rightarrow> string \<Rightarrow> countProp \<Rightarrow> (jsval \<times> entry) list \<Rightarrow> error + (jsval \<times> entry) list" where
  "mergeSeries bi dataObj key cp merged =
     bindE (get_prop dataObj key) (\<lambda>series.
       case series of
         Arr items \<Rightarrow> foldE (mergeSeriesItem bi cp) merged items
       | _ \<Rightarrow> Inr merged)"

text \<open>\<^verbatim>\<open>item.count20 || 0\<close> and \<^verbatim>\<open>item.total || 0\<close>\<close>

definition count_or_zero :: "jsnum option \<Rightarrow> jsnum" where
  "count_or_zero c = (case c of None \<Rightarrow> Fin 0 | Some n \<Rightarrow> if truthy (Num n) then n else Fin 0)"

definition complexPoint :: "builtins \<Rightarrow> entry \<Rightarrow> jsval" where
  "complexPoint bi item =
     (let t = count_or_zero (Some (e_total item));
          ts = date_time bi (e_date item)
      in breadth_point (e_date item) (Num (if ts = NaN then Fin 0 else ts)) t
           (count_or_zero (e_count20 item)) (count_or_zero (e_count50 item))
           (count_or_zero (e_count200 item)))"

definition mapComplexBreadthData :: "builtins \<Rightarrow> jsval \<Rightarrow> error + jsval list" where
  "mapComplexBreadthData bi dataObj =
     bindE (mergeSeries bi dataObj ''ma20'' Count20 []) (\<lambda>m1.
     bindE (mergeSeries bi dataObj ''ma50'' Count50 m1) (\<lambda>m2.
     bindE (mergeSeries bi dataObj ''ma200'' Count200 m2) (\<lambda>m3.
       Inr (map (\<lambda>kv. complexPoint bi (snd kv)) m3))))"

subsection \<open>processRaw\<close>

definition is_plain_object :: "jsval \<Rightarrow> bool" where
  "is_plain_object v = (case v of Obj _ \<Rightarrow> True | _ \<Rightarrow> False)"

text \<open>The closure \<^verbatim>\<open>processRaw\<close> of \<^verbatim>\<open>fetchBreadthData\<close>.\<close>

definition processRaw :: "builtins \<Rightarrow> jsval \<Rightarrow> error + jsval list" where
  "processRaw bi data =
     (if \<not> truthy data then Inr []
      else
        bindE (get_prop data ''data'') (\<lambda>inner.
        bindE (if truthy inner \<and> \<not> is_array inner \<and> is_plain_object inner
               then bindE (mapComplexBreadthData bi inner) (\<lambda>pts. Inr (Arr pts))
               else Inr (if is_array data then data else js_or inner (Arr []))) (\<lambda>raw.
          case raw of
            Arr xs \<Rightarrow>
              (case xs of
                 [] \<Rightarrow> mapBreadthData bi xs
               | x # _ \<Rightarrow>
                   bindE (has_prop ''ma20'' x) (\<lambda>has.
                     if has then Inr xs else mapBreadthData bi xs))
          | _ \<Rightarrow> Inr [])))"

section \<open>Index payloads (formatters.ts)\<close>

text \<open>\<^verbatim>\<open>a >= b\<close> on numbers: false when either is \<open>NaN\<close>.\<close>

definition js_ge :: "jsnum \<Rightarrow> jsnum \<Rightarrow> bool" where
  "js_ge a b = (a \<noteq> NaN \<and> b \<noteq> NaN \<and> \<not> js_lt a b)"

definition index_point :: "jsval \<Rightarrow> jsnum \<Rightarrow> jsval" where
  "index_point ts c = Obj [(''timestamp'', ts), (''close'', Num c)]"

text \<open>\<^verbatim>\<open>if (typeof timestamp === 'number' && timestamp < 10000000000) timestamp *= 1000\<close>\<close>

definition scale_ms :: "jsval \<Rightarrow> jsval" where
  "scale_ms ts =
     (case ts of
        Num n \<Rightarrow> if js_lt n (Fin 10000000000) then Num (js_mul n (Fin 1000)) else ts
      | _ \<Rightarrow> ts)"

text \<open>Scenario 1, the callback over an array of arrays.\<close>

definition parseArrayItem :: "builtins \<Rightarrow> jsval \<Rightarrow> error + jsval" where
  "parseArrayItem bi item =
     bindE (get_index item 0) (\<lambda>timestamp.
     bindE (get_prop item ''length'') (\<lambda>len.
     bindE (if js_ge (to_number bi len) (Fin 5) then get_index item 4 else get_index item 1) (\<lambda>close.
       Inr (index_point (scale_ms timestamp) (to_number bi close)))))"

definition time_keys :: "string list" where
  "time_keys = [''date'', ''time'', ''t'', ''Date'', ''Time'', ''dt'']"

definition close_keys :: "string list" where
  "close_keys = [''value'', ''close'', ''c'', ''Close'', ''Price'', ''price'', ''v'',
                 ''adClose'', ''adjClose'']"

text \<open>Scenario 2, the callback over an array of objects; \<open>Null\<close> is the \<^verbatim>\<open>null\<close> the
  callback returns for a record it drops.\<close>

definition parseObjectItem :: "builtins \<Rightarrow> jsval \<Rightarrow> error + jsval" where
  "parseObjectItem bi item =
     bindE (prop_or item time_keys) (\<lambda>time.
     bindE (prop_or item close_keys) (\<lambda>close.
       if time = Undefined \<or> close = Undefined then Inr Null
       else
         let timestamp = (case time of Str s \<Rightarrow> Num (date_parse bi s) | _ \<Rightarrow> time)
         in Inr (index_point (scale_ms timestamp) (to_number bi close))))"

text \<open>Scenario 3, the callback over the columns \<^verbatim>\<open>data.t\<close> and \<^verbatim>\<open>data.c\<close>; the
  comparison has no \<^verbatim>\<open>typeof\<close> guard here, so it coerces.\<close>

definition parseColumnItem :: "builtins \<Rightarrow> jsval list \<Rightarrow> jsval \<times> nat \<Rightarrow> jsval" where
  "parseColumnItem bi cs ti =
     (let t = fst ti; i = snd ti;
          timestamp = (if js_lt (to_number bi t) (Fin 10000000000)
                       then Num (js_mul (to_number bi t) (Fin 1000)) else t)
      in index_point timestamp (to_number bi (if i < length cs then cs ! i else Undefined)))"

text \<open>The three scenarios below the unwrapping of \<^verbatim>\<open>{ data: [...] }\<close>.\<close>

definition parseShapes :: "builtins \<Rightarrow> jsval \<Rightarrow> error + jsval list" where
  "parseShapes bi data =
     (case data of
        Arr xs \<Rightarrow>
          if xs \<noteq> [] \<and> is_array (hd xs) then mapE (parseArrayItem bi) xs
          else bindE (mapE (parseObjectItem bi) xs) (\<lambda>ps. Inr (filter (\<lambda>p. p \<noteq> Null) ps))
      | _ \<Rightarrow>
          bindE (get_prop data ''t'') (\<lambda>ts.
          bindE (get_prop data ''c'') (\<lambda>cs.
            case (ts, cs) of
              (Arr tcol, Arr ccol) \<Rightarrow>
                Inr (map (parseColumnItem bi ccol) (zip tcol [0..<length tcol]))
            | _ \<Rightarrow> Inr [])))"

lemma size_map_of_less:
  "map_of kvs k = Some v \<Longrightarrow> size (v::jsval) < Suc (size_list (size_prod (\<lambda>_. 0) size) kvs)"
  by (induction kvs) (auto split: if_splits)

function parseVNIndexData :: "builtins \<Rightarrow> jsval \<Rightarrow> error + jsval list" where
  "parseVNIndexData bi data =
     (if \<not> truthy data then Inr []
      else
        (case get_prop data ''data'' of
           Inl e \<Rightarrow> Inl e
         | Inr inner \<Rightarrow>
             if truthy inner \<and> is_array inner then parseVNIndexData bi inner
             else parseShapes bi data))"
  by pat_completeness auto

lemma idx_of_key_less: "idx_of_key k n = Some i \<Longrightarrow> i < n"
  by (auto simp: idx_of_key_def find_Some_iff)

lemma size_nth_less: "i < length xs \<Longrightarrow> size (xs ! i :: jsval) < Suc (size_list size xs)"
proof (induction xs arbitrary: i)
  case Nil
  then show ?case by simp
next
  case (Cons a xs)
  show ?case
  proof (cases i)
    case 0
    then show ?thesis by simp
  next
    case (Suc j)
    with Cons.prems have "j < length xs" by simp
    from Cons.IH [OF this] Suc show ?thesis by simp
  qed
qed

lemma get_prop_array_smaller:
  "get_prop data k = Inr inner \<Longrightarrow> is_array inner \<Longrightarrow> size inner < size data"
  by (cases data)
     (auto simp: get_prop_def is_array_def split: if_splits option.splits
           dest!: idx_of_key_less size_nth_less size_map_of_less)

termination parseVNIndexData
  by (relation "measure (\<lambda>p. size (snd p))") (auto dest: get_prop_array_smaller)

declare parseVNIndexData.simps [simp del]

section \<open>The cache (api.ts)\<close>

subsection \<open>JSON text\<close>

definition hex_digit :: "nat \<Rightarrow> char" where
  "hex_digit d = ''0123456789abcdef'' ! d"

text \<open>\<^verbatim>\<open>JSON.stringify\<close> of a string: the quote is \<open>CHR 0x22\<close>, the backslash
  \<open>CHR 0x5C\<close>.\<close>

definition json_escape_char :: "char \<Rightarrow> string" where
  "json_escape_char c =
     (if c = CHR 0x22 then [CHR 0x5C, CHR 0x22]
      else if c = CHR 0x5C then [CHR 0x5C, CHR 0x5C]
      else if c = CHR 0x08 then [CHR 0x5C, CHR ''b'']
      else if c = CHR 0x0C then [CHR 0x5C, CHR ''f'']
      else if c = CHR 0x0A then [CHR 0x5C, CHR ''n'']
      else if c = CHR 0x0D then [CHR 0x5C, CHR ''r'']
      else if c = CHR 0x09 then [CHR 0x5C, CHR ''t'']
      else if (of_char c :: nat) < 32
        then [CHR 0x5C, CHR ''u'', CHR ''0'', CHR ''0'',
              hex_digit (of_char c div 16), hex_digit (of_char c mod 16)]
      else [c])"

definition json_quote :: "string \<Rightarrow> string" where
  "json_quote s = CHR 0x22 # concat (map json_escape_char s) @ [CHR 0x22]"

text \<open>
  \<^verbatim>\<open>JSON.stringify(v, replacer)\<close> for an array replacer (\<open>Some\<close> of its property list)
  or none. \<open>None\<close> as a result is \<^verbatim>\<open>undefined\<close>. The property list filters the
  properties of every object of the value, nested ones too; a property whose value is
  \<^verbatim>\<open>undefined\<close> is left out, and a number that is not finite is written \<^verbatim>\<open>null\<close>.
\<close>

function json_stringify :: "builtins \<Rightarrow> string list option \<Rightarrow> jsval \<Rightarrow> string option" where
  "json_stringify bi wl Undefined = None"
| "json_stringify bi wl Null = Some ''null''"
| "json_stringify bi wl (Boolean b) = Some (if b then ''true'' else ''false'')"
| "json_stringify bi wl (Num n) =
     Some (case n of Fin q \<Rightarrow> num_to_str bi q | _ \<Rightarrow> ''null'')"
| "json_stringify bi wl (Str s) = Some (json_quote s)"
| "json_stringify bi wl (Arr xs) =
     Some (''['' @ join_with '',''
             (map (\<lambda>x. case json_stringify bi wl x of None \<Rightarrow> ''null'' | Some t \<Rightarrow> t) xs) @ '']'')"
| "json_stringify bi wl (Obj kvs) =
     Some (''{'' @ join_with '',''
             (concat (map (\<lambda>k. case map_of kvs k of
                                  None \<Rightarrow> []
                                | Some v \<Rightarrow>
                                    (case json_stringify bi wl v of
                                       None \<Rightarrow> []
                                     | Some t \<Rightarrow> [json_quote k @ '':'' @ t]))
                          (case wl of None \<Rightarrow> map fst kvs | Some ks \<Rightarrow> ks))) @ ''}'')"
  by pat_completeness auto

lemma size_elem_less: "x \<in> set xs \<Longrightarrow> size (x::jsval) < Suc (size_list size xs)"
  by (induction xs) auto

termination json_stringify
  by (relation "measure (\<lambda>p. size (snd (snd p)))")
     (auto dest: size_elem_less size_map_of_less)

text \<open>The property list of an array replacer keeps the first occurrence of each name.\<close>

definition property_list :: "string list \<Rightarrow> string list" where
  "property_list ks = rev (remdups (rev ks))"

definition CACHE_PREFIX :: string where
  "CACHE_PREFIX = ''MBA_CACHE_V5_''"

definition VNINDEX_TTL :: rat where
  "VNINDEX_TTL = 4 * 60 * 60 * 1000"

definition BREADTH_MIN_FRESH :: rat where
  "BREADTH_MIN_FRESH = 5 * 60 * 1000"

definition DEFAULT_BREADTH_URL :: string where
  "DEFAULT_BREADTH_URL = ''https://api.alphastock.vn/api/stock/avg''"

definition DEFAULT_VNINDEX_URL :: string where
  "DEFAULT_VNINDEX_URL = ''https://api.alphastock.vn/charts_json/vnindex_5y.json''"

text \<open>
  \<^verbatim>\<open>getCacheKey\<close>: the parameter object is the list of its properties;
  \<^verbatim>\<open>Object.keys(params).sort()\<close> orders the names by code unit, which is the order of
  \<open>string\<close>.
\<close>

definition getCacheKey :: "builtins \<Rightarrow> string \<Rightarrow> (string \<times> jsval) list \<Rightarrow> string" where
  "getCacheKey bi prefix params =
     (let paramString =
            (case json_stringify bi (Some (property_list (sort (map fst params)))) (Obj params) of
               Some t \<Rightarrow> t | None \<Rightarrow> ''undefined'')
      in CACHE_PREFIX @ prefix @ ''_'' @ paramString)"

subsection \<open>localStorage\<close>

text \<open>
  A stored text is kept as what \<^verbatim>\<open>JSON.parse\<close> makes of it: a value, or a
  \<^verbatim>\<open>SyntaxError\<close> (\<open>NotJson\<close>, which also stands for the empty text). Whether the store
  has room for another write is part of its state.
\<close>

datatype item = NotJson | Json jsval

record storage =
  items :: "string \<Rightarrow> item option"
  full :: bool

text \<open>\<^verbatim>\<open>JSON.parse(JSON.stringify(v))\<close> for a value inside a payload.\<close>

fun json_roundtrip :: "jsval \<Rightarrow> jsval" where
  "json_roundtrip (Num n) = (case n of Fin q \<Rightarrow> Num n | _ \<Rightarrow> Null)"
| "json_roundtrip (Arr xs) = Arr (map (\<lambda>x. if x = Undefined then Null else json_roundtrip x) xs)"
| "json_roundtrip (Obj kvs) =
     Obj (map (\<lambda>kv. (fst kv, json_roundtrip (snd kv))) (filter (\<lambda>kv. snd kv \<noteq> Undefined) kvs))"
| "json_roundtrip v = v"

definition setItem :: "storage \<Rightarrow> string \<Rightarrow> jsval \<Rightarrow> error + storage" where
  "setItem st key payload =
     (if full st then Inl QuotaExceededError
      else Inr (st\<lparr>items := (items st)(key \<mapsto> Json (json_roundtrip payload))\<rparr>))"

definition saveToCache :: "storage \<Rightarrow> string \<Rightarrow> jsval \<Rightarrow> rat \<Rightarrow> storage" where
  "saveToCache st key data now =
     (case setItem st key (Obj [(''timestamp'', Num (Fin now)), (''data'', data)]) of
        Inl e \<Rightarrow> st
      | Inr st' \<Rightarrow> st')"

text \<open>The body of the \<^verbatim>\<open>try\<close> of \<^verbatim>\<open>loadFromCache\<close>: \<open>None\<close> is \<^verbatim>\<open>null\<close>.\<close>

definition loadFromCache_try ::
  "builtins \<Rightarrow> storage \<Rightarrow> string \<Rightarrow> jsnum option \<Rightarrow> rat \<Rightarrow> error + (jsval \<times> jsnum) option" where
  "loadFromCache_try bi st key ttl now =
     (case items st key of
        None \<Rightarrow> Inr None
      | Some NotJson \<Rightarrow> Inl SyntaxError
      | Some (Json payload) \<Rightarrow>
          if \<not> truthy payload then Inr None
          else
            bindE (get_prop payload ''data'') (\<lambda>d.
              if \<not> truthy d then Inr None
              else
                bindE (get_prop payload ''timestamp'') (\<lambda>written.
                  let age = js_sub (Fin now) (to_number bi written)
                  in case ttl of
                       None \<Rightarrow> Inr (Some (d, age))
                     | Some limit \<Rightarrow> if js_gt age limit then Inr None else Inr (Some (d, age)))))"

definition loadFromCache ::
  "builtins \<Rightarrow> storage \<Rightarrow> string \<Rightarrow> jsnum option \<Rightarrow> rat \<Rightarrow> (jsval \<times> jsnum) option" where
  "loadFromCache bi st key ttl now =
     (case loadFromCache_try bi st key ttl now of Inl e \<Rightarrow> None | Inr r \<Rightarrow> r)"

section \<open>The fetchers (api.ts)\<close>

text \<open>
  The network is an input: for one URL, what the direct request and what the request
  through the proxy come to, each either the parsed JSON body or a failure (no connection,
  a status that is not ok, a body that is not JSON).
\<close>

record transport =
  direct :: "error + jsval"
  proxy :: "error + jsval"

definition fetchWithFallback :: "transport \<Rightarrow> error + jsval" where
  "fetchWithFallback tr =
     (case direct tr of
        Inr v \<Rightarrow> Inr v
      | Inl directError \<Rightarrow>
          (case proxy tr of Inr v \<Rightarrow> Inr v | Inl proxyError \<Rightarrow> Inl proxyError))"

text \<open>What a fetcher comes to: the value its promise resolves to (or the error it rejects
  with), the store it leaves, and the requests it has made.\<close>

datatype request = IndexRequest | LatestRequest | HistoryRequest

record 'a outcome =
  resolved :: "error + 'a"
  store :: storage
  requests :: "request list"

text \<open>
  \<^verbatim>\<open>fetchVNIndexData\<close>. \<open>now1\<close> is the clock at the first cache read, \<open>now2\<close> the
  clock once the request has settled.
\<close>

definition fetchVNIndexData ::
  "builtins \<Rightarrow> string option \<Rightarrow> storage \<Rightarrow> rat \<Rightarrow> transport \<Rightarrow> rat \<Rightarrow> jsval outcome" where
  "fetchVNIndexData bi url st now1 tr now2 =
     (let targetUrl = (case url of
                         None \<Rightarrow> DEFAULT_VNINDEX_URL
                       | Some u \<Rightarrow> if u = [] then DEFAULT_VNINDEX_URL else u);
          cacheKey = getCacheKey bi ''VNINDEX'' [(''url'', Str targetUrl)]
      in case loadFromCache bi st cacheKey (Some (Fin VNINDEX_TTL)) now1 of
           Some cached \<Rightarrow> \<lparr>resolved = Inr (fst cached), store = st, requests = []\<rparr>
         | None \<Rightarrow>
             (case bindE (fetchWithFallback tr) (\<lambda>data.
                     if \<not> truthy data then Inl EmptyDataError else parseVNIndexData bi data) of
                Inr parsed \<Rightarrow>
                  \<lparr>resolved = Inr (Arr parsed),
                   store = (if parsed \<noteq> [] then saveToCache st cacheKey (Arr parsed) now2 else st),
                   requests = [IndexRequest]\<rparr>
              | Inl err \<Rightarrow>
                  \<lparr>resolved = Inr (case loadFromCache bi st cacheKey None now2 of
                                     Some staleCache \<Rightarrow> fst staleCache
                                   | None \<Rightarrow> Arr []),
                   store = st, requests = [IndexRequest]\<rparr>))"

subsection \<open>Merging breadth points\<close>

text \<open>\<^verbatim>\<open>ps.forEach(p => mergedMap.set(p.timestamp, p))\<close>\<close>

definition setPoint :: "(jsval \<times> jsval) list \<Rightarrow> jsval \<Rightarrow> error + (jsval \<times> jsval) list" where
  "setPoint m p = bindE (get_prop p ''timestamp'') (\<lambda>ts. Inr (map_set m ts p))"

definition setPoints :: "(jsval \<times> jsval) list \<Rightarrow> jsval list \<Rightarrow> error + (jsval \<times> jsval) list" where
  "setPoints m ps = foldE setPoint m ps"

text \<open>
  \<^verbatim>\<open>xs.sort(cmp)\<close> is stable. It is modelled by the stable insertion sort, which is what
  every conforming sort returns when the comparator is consistent; on an inconsistent
  comparator (one that yields \<open>NaN\<close> on some pairs only) the language leaves the order
  to the implementation. \<open>gt a b\<close> stands for \<^verbatim>\<open>cmp(a, b) > 0\<close>.
\<close>

fun insert_cmp :: "('a \<Rightarrow> 'a \<Rightarrow> bool) \<Rightarrow> 'a \<Rightarrow> 'a list \<Rightarrow> 'a list" where
  "insert_cmp gt x [] = [x]"
| "insert_cmp gt x (y # ys) = (if gt x y then y # insert_cmp gt x ys else x # y # ys)"

definition sort_cmp :: "('a \<Rightarrow> 'a \<Rightarrow> bool) \<Rightarrow> 'a list \<Rightarrow> 'a list" where
  "sort_cmp gt xs = foldr (insert_cmp gt) xs []"

text \<open>\<^verbatim>\<open>p.timestamp\<close> of a point that is not \<^verbatim>\<open>null\<close>, as a number.\<close>

definition timestamp_num :: "builtins \<Rightarrow> jsval \<Rightarrow> jsnum" where
  "timestamp_num bi p =
     (case get_prop p ''timestamp'' of Inl e \<Rightarrow> NaN | Inr ts \<Rightarrow> to_number bi ts)"

text \<open>\<^verbatim>\<open>(a, b) => a.timestamp - b.timestamp\<close>, positive.\<close>

definition by_timestamp :: "builtins \<Rightarrow> jsval \<Rightarrow> jsval \<Rightarrow> bool" where
  "by_timestamp bi a b = js_gt (js_sub (timestamp_num bi a) (timestamp_num bi b)) (Fin 0)"

text \<open>Lines 178 to 188 of \<^verbatim>\<open>fetchBreadthData\<close>: the merged map and its sorted values.\<close>

definition mergePoints ::
  "builtins \<Rightarrow> bool \<Rightarrow> bool \<Rightarrow> jsval list \<Rightarrow> jsval list \<Rightarrow> jsval list \<Rightarrow> error + jsval list" where
  "mergePoints bi shouldFetchHistory isCacheValid cachedData historyPoints latestPoints =
     bindE (if \<not> shouldFetchHistory \<and> isCacheValid then setPoints [] cachedData else Inr []) (\<lambda>m1.
     bindE (if shouldFetchHistory then setPoints m1 historyPoints else Inr m1) (\<lambda>m2.
     bindE (setPoints m2 latestPoints) (\<lambda>mergedMap.
       Inr (sort_cmp (by_timestamp bi) (map snd mergedMap)))))"

subsection \<open>fetchBreadthData\<close>

record FilterParams =
  t_param :: jsnum
  floor_param :: string
  min_adClose :: jsnum
  max_adClose :: jsnum
  min_MA20 :: jsnum
  max_MA20 :: jsnum
  breadthUrl :: "string option"

definition filterIdentity :: "FilterParams \<Rightarrow> (string \<times> jsval) list" where
  "filterIdentity params =
     [(''floor'', Str (floor_param params)),
      (''min_ad'', Num (min_adClose params)),
      (''max_ad'', Num (max_adClose params)),
      (''min_ma'', Num (min_MA20 params)),
      (''max_ma'', Num (max_MA20 params)),
      (''breadthUrl'', Str (case breadthUrl params of
                              None \<Rightarrow> DEFAULT_BREADTH_URL
                            | Some u \<Rightarrow> if u = [] then DEFAULT_BREADTH_URL else u))]"

text \<open>\<^verbatim>\<open>fetchWithFallback(url).catch(() => [])\<close>\<close>

definition fetchOrEmpty :: "transport \<Rightarrow> jsval" where
  "fetchOrEmpty tr = (case fetchWithFallback tr of Inl e \<Rightarrow> Arr [] | Inr v \<Rightarrow> v)"

text \<open>
  The cache read at the head of \<^verbatim>\<open>fetchBreadthData\<close>: the cached list and its age when
  an entry is stored under the key and holds a list that is not empty
  (\<^verbatim>\<open>isCacheValid\<close>, with \<^verbatim>\<open>cachedData\<close> and \<^verbatim>\<open>cacheAge\<close>).
\<close>

definition cachedBreadth ::
  "builtins \<Rightarrow> storage \<Rightarrow> string \<Rightarrow> rat \<Rightarrow> (jsval list \<times> jsnum) option" where
  "cachedBreadth bi st cacheKey now =
     (case loadFromCache bi st cacheKey None now of
        Some (Arr xs, age) \<Rightarrow> if xs \<noteq> [] then Some (xs, age) else None
      | _ \<Rightarrow> None)"

text \<open>
  \<^verbatim>\<open>fetchBreadthData\<close>. \<open>latest\<close> and \<open>history\<close> are what the network does with the two
  URLs; \<open>history\<close> is read only when the history request is made.
\<close>

definition fetchBreadthData ::
  "builtins \<Rightarrow> FilterParams \<Rightarrow> storage \<Rightarrow> rat \<Rightarrow> transport \<Rightarrow> transport \<Rightarrow> rat
     \<Rightarrow> (jsval list) outcome" where
  "fetchBreadthData bi params st now1 latest history now2 =
     (let cacheKey = getCacheKey bi ''BREADTH'' (filterIdentity params);
          hit = cachedBreadth bi st cacheKey now1;
          cachedData = (case hit of Some (xs, age) \<Rightarrow> xs | None \<Rightarrow> []);
          isCacheValid = (hit \<noteq> None);
          cacheAge = (case hit of Some (xs, age) \<Rightarrow> age | None \<Rightarrow> Fin 999999999)
      in if isCacheValid \<and> js_lt cacheAge (Fin BREADTH_MIN_FRESH)
         then \<lparr>resolved = Inr cachedData, store = st, requests = []\<rparr>
         else
           let shouldFetchHistory = (\<not> isCacheValid \<or> length cachedData < 50);
               latestRaw = fetchOrEmpty latest;
               historyRaw = (if shouldFetchHistory then fetchOrEmpty history else Arr []);
               reqs = LatestRequest # (if shouldFetchHistory then [HistoryRequest] else [])
           in case bindE (processRaw bi latestRaw) (\<lambda>latestPoints.
                   bindE (processRaw bi historyRaw) (\<lambda>historyPoints.
                     mergePoints bi shouldFetchHistory isCacheValid cachedData
                       historyPoints latestPoints)) of
                Inr finalResult \<Rightarrow>
                  \<lparr>resolved = Inr finalResult,
                   store = (if finalResult \<noteq> []
                            then saveToCache st cacheKey (Arr finalResult) now2 else st),
                   requests = reqs\<rparr>
              | Inl err \<Rightarrow>
                  \<lparr>resolved = Inr (if isCacheValid then cachedData else []),
                   store = st, requests = reqs\<rparr>)"

section \<open>The merge engine (the memo \<^verbatim>\<open>chartData\<close>)\<close>

text \<open>\<^verbatim>\<open>item[k] = v\<close> on a property list: in place, or appended.\<close>

fun set_prop :: "(string \<times> jsval) list \<Rightarrow> string \<Rightarrow> jsval \<Rightarrow> (string \<times> jsval) list" where
  "set_prop [] k v = [(k, v)]"
| "set_prop ((k', v') # kvs) k v =
     (if k' = k then (k, v) # kvs else (k', v') # set_prop kvs k v)"

text \<open>The own enumerable properties \<^verbatim>\<open>Object.assign\<close> copies from its source.\<close>

definition own_props :: "jsval \<Rightarrow> (string \<times> jsval) list" where
  "own_props v =
     (case v of
        Obj kvs \<Rightarrow> kvs
      | Arr xs \<Rightarrow> zip (map dec_str [0..<length xs]) xs
      | Str s \<Rightarrow> zip (map dec_str [0..<length s]) (map (\<lambda>c. Str [c]) s)
      | _ \<Rightarrow> [])"

definition object_assign :: "(string \<times> jsval) list \<Rightarrow> jsval \<Rightarrow> (string \<times> jsval) list" where
  "object_assign target src = fold (\<lambda>kv tgt. set_prop tgt (fst kv) (snd kv)) (own_props src) target"

definition pad_start2 :: "string \<Rightarrow> string" where
  "pad_start2 s = replicate (2 - length s) (CHR ''0'') @ s"

definition formatDate :: "builtins \<Rightarrow> jsval \<Rightarrow> string" where
  "formatDate bi ts =
     (let tv = date_time bi ts
      in pad_start2 (num_str bi (local_date bi tv)) @ ''/'' @
         pad_start2 (num_str bi (js_add (local_month bi tv) (Fin 1))))"

text \<open>\<^verbatim>\<open>dataMap\<close>: calendar day to record, in insertion order.\<close>

type_synonym dataMap = "(string \<times> (string \<times> jsval) list) list"

definition getOrCreate :: "builtins \<Rightarrow> dataMap \<Rightarrow> jsval \<Rightarrow> string \<Rightarrow> dataMap" where
  "getOrCreate bi m ts key =
     (if key \<in> set (map fst m) then m
      else m @ [(key, [(''date'', Str key), (''timestamp'', ts),
                       (''formattedDate'', Str (formatDate bi ts)),
                       (''vnIndex'', Undefined), (''capVal'', Undefined),
                       (''sectorVal'', Undefined)])])"

text \<open>A change to the record \<^verbatim>\<open>dataMap.get(key)\<close>.\<close>

definition on_day ::
  "dataMap \<Rightarrow> string \<Rightarrow> ((string \<times> jsval) list \<Rightarrow> (string \<times> jsval) list) \<Rightarrow> dataMap" where
  "on_day m key f = map (\<lambda>kr. if fst kr = key then (fst kr, f (snd kr)) else kr) m"

definition mergeBreadthPoint :: "builtins \<Rightarrow> dataMap \<Rightarrow> jsval \<Rightarrow> error + dataMap" where
  "mergeBreadthPoint bi m b =
     bindE (get_prop b ''timestamp'') (\<lambda>ts.
     bindE (to_iso_date bi ts) (\<lambda>key.
       Inr (on_day (getOrCreate bi m ts key) key (\<lambda>item. object_assign item b))))"

text \<open>The callback of the three index series; \<open>field\<close> is \<^verbatim>\<open>vnIndex\<close>,
  \<^verbatim>\<open>capVal\<close> or \<^verbatim>\<open>sectorVal\<close>.\<close>

definition mergeIndexPoint :: "builtins \<Rightarrow> string \<Rightarrow> dataMap \<Rightarrow> jsval \<Rightarrow> error + dataMap" where
  "mergeIndexPoint bi field m v =
     bindE (get_prop v ''timestamp'') (\<lambda>ts.
     bindE (to_iso_date bi ts) (\<lambda>key.
     bindE (get_prop v ''close'') (\<lambda>close.
       let m' = getOrCreate bi m ts key
       in Inr (if close \<noteq> Null \<and> close \<noteq> Undefined
               then on_day m' key (\<lambda>item. set_prop item field close)
               else m'))))"

definition mergeSources ::
  "builtins \<Rightarrow> jsval list \<Rightarrow> jsval list \<Rightarrow> jsval list \<Rightarrow> jsval list \<Rightarrow> error + dataMap" where
  "mergeSources bi breadthData vnIndexFixedData capData sectorData =
     bindE (foldE (mergeBreadthPoint bi) [] breadthData) (\<lambda>m1.
     bindE (foldE (mergeIndexPoint bi ''vnIndex'') m1 vnIndexFixedData) (\<lambda>m2.
     bindE (foldE (mergeIndexPoint bi ''capVal'') m2 capData) (\<lambda>m3.
       foldE (mergeIndexPoint bi ''sectorVal'') m3 sectorData)))"

datatype TimeRange = R1M | R3M | R6M | R1Y | R3Y | R5Y | R7Y

fun ranges :: "TimeRange \<Rightarrow> rat" where
  "ranges R1M = 30"
| "ranges R3M = 90"
| "ranges R6M = 180"
| "ranges R1Y = 365"
| "ranges R3Y = 1095"
| "ranges R5Y = 1825"
| "ranges R7Y = 2555"

definition given :: "string option \<Rightarrow> bool" where
  "given d = (case d of None \<Rightarrow> False | Some s \<Rightarrow> s \<noteq> [])"

definition chartData ::
  "builtins \<Rightarrow> jsval list \<Rightarrow> jsval list \<Rightarrow> jsval list \<Rightarrow> jsval list \<Rightarrow>
     string option \<Rightarrow> string option \<Rightarrow> TimeRange \<Rightarrow> rat \<Rightarrow> error + jsval list" where
  "chartData bi breadthData vnIndexFixedData capData sectorData fromDate toDate rng now =
     (if breadthData = [] \<and> vnIndexFixedData = [] then Inr []
      else
        bindE (mergeSources bi breadthData vnIndexFixedData capData sectorData) (\<lambda>m.
          let sorted = sort_cmp (by_timestamp bi) (map (\<lambda>kr. Obj (snd kr)) m)
          in Inr (if given fromDate \<or> given toDate
                  then
                    let from = (case fromDate of
                                  None \<Rightarrow> Fin 0
                                | Some s \<Rightarrow> if s = [] then Fin 0 else date_parse bi s);
                        to = (case toDate of
                                None \<Rightarrow> PInf
                              | Some s \<Rightarrow> if s = [] then PInf
                                          else js_add (date_parse bi s) (Fin 86400000))
                    in filter (\<lambda>d. js_ge (timestamp_num bi d) from \<and> js_lt (timestamp_num bi d) to)
                         sorted
                  else
                    let cutoff = Fin (now - ranges rng * 86400000)
                    in filter (\<lambda>d. js_ge (timestamp_num bi d) cutoff) sorted)))"

section \<open>Example runtime\<close>

text \<open>
  The closed examples below need the runtime's builtins at concrete texts. \<open>dec_val\<close>
  reads a text of decimal digits; the example builtins give the runtime's answers on such
  texts, on the calendar days the examples use, and \<open>NaN\<close> on a text that is no number
  or no date at all.
\<close>

definition digit_val :: "char \<Rightarrow> nat" where
  "digit_val c = (of_char c :: nat) - 48"

definition is_digit :: "char \<Rightarrow> bool" where
  "is_digit c = (48 \<le> (of_char c :: nat) \<and> (of_char c :: nat) \<le> 57)"

definition dec_val :: "string \<Rightarrow> nat" where
  "dec_val s = foldl (\<lambda>a c. 10 * a + digit_val c) 0 s"

definition example_number :: "string \<Rightarrow> jsnum" where
  "example_number s = (if s \<noteq> [] \<and> list_all is_digit s then Fin (of_nat (dec_val s)) else NaN)"

definition example_builtins :: builtins where
  "example_builtins =
     \<lparr>str_to_num = example_number,
      parse_float = example_number,
      date_parse = (\<lambda>s. if s = ''2024-01-01'' then Fin 1704067200000
                        else if s = ''2024-01-02'' then Fin 1704153600000 else NaN),
      iso_date = (\<lambda>q. if 1704153600000 \<le> q then ''2024-01-02'' else ''2024-01-01''),
      num_to_str = (\<lambda>q. dec_str (nat \<lfloor>q\<rfloor>)),
      local_date = (\<lambda>n. if n = Fin 1704153600000 then Fin 2 else Fin 1),
      local_month = (\<lambda>n. Fin 0)\<rparr>"

definition example_store :: storage where
  "example_store =
     \<lparr>items = [''k'' \<mapsto> Json (Obj [(''timestamp'', Num (Fin 1000)),
                                    (''data'', Arr [Num (Fin 7)])])],
      full = False\<rparr>"


definition example_params :: FilterParams where
  "example_params =
     \<lparr>t_param = Fin 84, floor_param = ''hnx,hose,upcom'', min_adClose = Fin 2,
      max_adClose = Fin 500, min_MA20 = Fin 50, max_MA20 = Fin 200000,
      breadthUrl = Some ''https://api.alphastock.vn/api/stock/avg''\<rparr>"

definition empty_store :: storage where
  "empty_store = \<lparr>items = Map.empty, full = False\<rparr>"

definition answers :: "jsval \<Rightarrow> transport" where
  "answers v = \<lparr>direct = Inr v, proxy = Inl FetchError\<rparr>"

definition unreachable :: transport where
  "unreachable = \<lparr>direct = Inl FetchError, proxy = Inl FetchError\<rparr>"

definition flat_record :: jsval where
  "flat_record =
     Obj [(''date'', Str ''2024-01-01''), (''total'', Num (Fin 100)),
          (''avg_ma20'', Num (Fin 40))]"


definition bad_date_record :: jsval where
  "bad_date_record =
     Obj [(''date'', Str ''not a date''), (''total'', Num (Fin 100)),
          (''avg_ma20'', Num (Fin 40))]"

definition no_date_record :: jsval where
  "no_date_record = Obj [(''total'', Num (Fin 100)), (''avg_ma20'', Num (Fin 40))]"

definition vnindex_key :: string where
  "vnindex_key = getCacheKey example_builtins ''VNINDEX'' [(''url'', Str DEFAULT_VNINDEX_URL)]"

definition stale_store :: storage where
  "stale_store =
     \<lparr>items = [vnindex_key \<mapsto> Json (Obj [(''timestamp'', Num (Fin 0)),
              (''data'', Arr [index_point (Num (Fin 1704067200000)) (Fin 1100)])])],
      full = False\<rparr>"

definition zero_value_record :: "(string \<times> jsval) list" where
  "zero_value_record = [(''date'', Str ''2024-01-01''), (''value'', Num (Fin 0))]"

definition zero_then_close_record :: "(string \<times> jsval) list" where
  "zero_then_close_record =
     [(''date'', Str ''2024-01-01''), (''value'', Num (Fin 0)), (''close'', Num (Fin 5))]"

definition close_record :: "(string \<times> jsval) list" where
  "close_record = [(''time'', Num (Fin 1704153600)), (''Close'', Num (Fin 1100)),
                   (''price'', Num (Fin 7))]"

definition no_value_record :: "(string \<times> jsval) list" where
  "no_value_record = [(''date'', Str ''2024-01-01''), (''volume'', Num (Fin 12))]"








definition zero_close_point :: jsval where
  "zero_close_point = Obj [(''timestamp'', Num (Fin 1704067200000)), (''close'', Num (Fin 0))]"

definition null_close_point :: jsval where
  "null_close_point = Obj [(''timestamp'', Num (Fin 1704067200000)), (''close'', Null)]"

definition next_day_point :: jsval where
  "next_day_point = Obj [(''timestamp'', Num (Fin 1704153600000)), (''close'', Num (Fin 950))]"

definition first_day_map :: dataMap where
  "first_day_map =
     [(''2024-01-01'',
       [(''date'', Str ''2024-01-01''), (''timestamp'', Num (Fin 1704067200000)),
        (''formattedDate'', Str ''01/01''), (''vnIndex'', Num (Fin 0)),
        (''capVal'', Undefined), (''sectorVal'', Undefined)])]"

definition two_day_map :: dataMap where
  "two_day_map =
     first_day_map @
     [(''2024-01-02'',
       [(''date'', Str ''2024-01-02''), (''timestamp'', Num (Fin 1704153600000)),
        (''formattedDate'', Str ''02/01''), (''vnIndex'', Undefined),
        (''capVal'', Num (Fin 950)), (''sectorVal'', Undefined)])]"

definition two_day_sector_map :: dataMap where
  "two_day_sector_map =
     first_day_map @
     [(''2024-01-02'',
       [(''date'', Str ''2024-01-02''), (''timestamp'', Num (Fin 1704153600000)),
        (''formattedDate'', Str ''02/01''), (''vnIndex'', Undefined),
        (''capVal'', Undefined), (''sectorVal'', Num (Fin 950))])]"

definition nested_params :: "rat \<Rightarrow> (string \<times> jsval) list" where
  "nested_params x = [(''a'', Obj [(''x'', Num (Fin x))])]"

definition day_point :: "rat \<Rightarrow> rat \<Rightarrow> jsval" where
  "day_point ts c20 =
     breadth_point (Str ''2024-01-01'') (Num (Fin ts)) (Fin 100) (Fin c20) (Fin 0) (Fin 0)"

definition cached_days :: "jsval list" where
  "cached_days = map (\<lambda>i. day_point (1704067200000 + 86400000 * of_nat i) 40) [0..<50]"

definition breadth_key :: string where
  "breadth_key = getCacheKey example_builtins ''BREADTH'' (filterIdentity example_params)"

definition stale_breadth_store :: storage where
  "stale_breadth_store =
     \<lparr>items = [breadth_key \<mapsto> Json (Obj [(''timestamp'', Num (Fin 0)),
                                          (''data'', Arr cached_days)])],
      full = False\<rparr>"

section \<open>Properties of breadth points\<close>





section \<open>Properties of index payloads\<close>

text \<open>The first key of a list, in its order, that is a property of the record: the rule of
  the specification for the time and the value of a record.\<close>

fun first_present :: "(string \<times> jsval) list \<Rightarrow> string list \<Rightarrow> jsval option" where
  "first_present kvs [] = None"
| "first_present kvs (k # ks) =
     (case map_of kvs k of Some v \<Rightarrow> Some v | None \<Rightarrow> first_present kvs ks)"

text \<open>The point of a record by that rule, or none when a field is missing.\<close>

definition present_point :: "builtins \<Rightarrow> (string \<times> jsval) list \<Rightarrow> jsval list" where
  "present_point bi kvs =
     (case (first_present kvs time_keys, first_present kvs close_keys) of
        (Some time, Some close) \<Rightarrow>
          [index_point (scale_ms (case time of Str s \<Rightarrow> Num (date_parse bi s) | _ \<Rightarrow> time))
             (to_number bi close)]
      | _ \<Rightarrow> [])"



section \<open>Properties of merged records\<close>

text \<open>\<^verbatim>\<open>dataMap.get(day)?.[f]\<close>: the field \<open>f\<close> of the record of a day, \<^verbatim>\<open>undefined\<close> when
  the day has no record or the record no such field.\<close>

definition day_field :: "dataMap \<Rightarrow> string \<Rightarrow> string \<Rightarrow> jsval" where
  "day_field m day f =
     (case map_of m day of
        None \<Rightarrow> Undefined
      | Some r \<Rightarrow> (case map_of r f of None \<Rightarrow> Undefined | Some v \<Rightarrow> v))"

text \<open>The calendar day of a point, when it has one.\<close>

definition day_of :: "builtins \<Rightarrow> jsval \<Rightarrow> string option" where
  "day_of bi v =
     (case get_prop v ''timestamp'' of
        Inl e \<Rightarrow> None
      | Inr ts \<Rightarrow> (case to_iso_date bi ts of Inl e \<Rightarrow> None | Inr day \<Rightarrow> Some day))"

text \<open>The record \<^verbatim>\<open>getOrCreate\<close> creates for a day that has none.\<close>

definition fresh_record :: "builtins \<Rightarrow> jsval \<Rightarrow> string \<Rightarrow> (string \<times> jsval) list" where
  "fresh_record bi ts key =
     [(''date'', Str key), (''timestamp'', ts), (''formattedDate'', Str (formatDate bi ts)),
      (''vnIndex'', Undefined), (''capVal'', Undefined), (''sectorVal'', Undefined)]"

definition index_fields :: "string set" where
  "index_fields = {''vnIndex'', ''capVal'', ''sectorVal''}"

text \<open>The record of a day after an index point with time \<open>ts\<close> and close \<open>c\<close> was merged
  into it.\<close>

definition merged_day ::
  "builtins \<Rightarrow> string \<Rightarrow> dataMap \<Rightarrow> jsval \<Rightarrow> string \<Rightarrow> jsval \<Rightarrow> (string \<times> jsval) list" where
  "merged_day bi fld m ts day c =
     (if c \<noteq> Null \<and> c \<noteq> Undefined then (\<lambda>r. set_prop r fld c) else (\<lambda>r. r))
       (case map_of m day of None \<Rightarrow> fresh_record bi ts day | Some r \<Rightarrow> r)"


section \<open>Properties of cache keys\<close>

text \<open>
  The values whose JSON text tells them apart: strings, finite numbers, booleans and
  \<^verbatim>\<open>null\<close>. The text of a finite number is a builtin; what is used of it is that it is
  not empty, is made of the characters of a JSON number, and differs for the different
  numbers of the two objects compared.
\<close>

definition plain_value :: "jsval \<Rightarrow> bool" where
  "plain_value v =
     (case v of Str s \<Rightarrow> True | Num n \<Rightarrow> (case n of Fin q \<Rightarrow> True | _ \<Rightarrow> False)
      | Boolean b \<Rightarrow> True | Null \<Rightarrow> True | _ \<Rightarrow> False)"

definition number_chars :: "char set" where
  "number_chars = set ''0123456789+-.eE''"

definition numbers_of :: "(string \<times> jsval) list \<Rightarrow> rat list" where
  "numbers_of ps = concat (map (\<lambda>kv. case snd kv of Num (Fin q) \<Rightarrow> [q] | _ \<Rightarrow> []) ps)"

definition number_text_ok :: "builtins \<Rightarrow> rat list \<Rightarrow> bool" where
  "number_text_ok bi qs =
     (inj_on (num_to_str bi) (set qs)
      \<and> list_all (\<lambda>q. num_to_str bi q \<noteq> [] \<and> set (num_to_str bi q) \<subseteq> number_chars) qs)"

text \<open>Reading one escaped character back, for the proof that \<open>json_quote\<close> is injective.\<close>

definition hex_val :: "char \<Rightarrow> nat" where
  "hex_val c = (if (of_char c :: nat) \<le> 57 then of_char c - 48 else of_char c - 87)"

definition unescape1 :: "string \<Rightarrow> (char \<times> string) option" where
  "unescape1 s =
     (case s of
        [] \<Rightarrow> None
      | c # r \<Rightarrow>
          if c \<noteq> CHR 0x5C then Some (c, r)
          else (case r of
                  [] \<Rightarrow> None
                | x # r' \<Rightarrow>
                    if x = CHR ''u''
                    then (case r' of
                            a # b # h1 # h2 # r'' \<Rightarrow>
                              Some (char_of (16 * hex_val h1 + hex_val h2), r'')
                          | _ \<Rightarrow> None)
                    else Some (if x = CHR ''b'' then CHR 0x08
                               else if x = CHR ''f'' then CHR 0x0C
                               else if x = CHR ''n'' then CHR 0x0A
                               else if x = CHR ''r'' then CHR 0x0D
                               else if x = CHR ''t'' then CHR 0x09
                               else x, r')))"

definition atom_chars :: "char set" where
  "atom_chars = number_chars \<union> set ''truefalsn''"

text \<open>The entry of one property name in the text of an object, as \<open>json_stringify\<close>
  writes it.\<close>

definition property_text ::
  "builtins \<Rightarrow> string list option \<Rightarrow> (string \<Rightarrow> jsval option) \<Rightarrow> string \<Rightarrow> string list" where
  "property_text bi wl m k =
     (case m k of
        None \<Rightarrow> []
      | Some v \<Rightarrow>
          (case json_stringify bi wl v of
             None \<Rightarrow> []
           | Some t \<Rightarrow> [json_quote k @ '':'' @ t]))"

section \<open>Properties of merged breadth points\<close>

text \<open>A timestamp that is compared by value as a key of the merged map.\<close>

definition primitive :: "jsval \<Rightarrow> bool" where
  "primitive v = (case v of Arr _ \<Rightarrow> False | Obj _ \<Rightarrow> False | _ \<Rightarrow> True)"

definition has_timestamp :: "jsval \<Rightarrow> jsval \<Rightarrow> bool" where
  "has_timestamp k p = (get_prop p ''timestamp'' = Inr k)"

definition finite_timestamp :: "jsval \<Rightarrow> rat option" where
  "finite_timestamp p =
     (case get_prop p ''timestamp'' of
        Inr (Num (Fin t)) \<Rightarrow> Some t
      | _ \<Rightarrow> None)"

definition timestamp_rat :: "jsval \<Rightarrow> rat" where
  "timestamp_rat p = (case finite_timestamp p of Some t \<Rightarrow> t | None \<Rightarrow> 0)"

text \<open>The invariants of the merged map: every point is stored under its own timestamp,
  and no two entries have the same key.\<close>

definition keyed :: "(jsval \<times> jsval) list \<Rightarrow> bool" where
  "keyed m = list_all (\<lambda>kv. has_timestamp (fst kv) (snd kv)) m"

fun keys_apart :: "(jsval \<times> 'v) list \<Rightarrow> bool" where
  "keys_apart [] = True"
| "keys_apart (kv # m) = (list_all (\<lambda>kv'. \<not> same_value_zero (fst kv) (fst kv')) m \<and> keys_apart m)"

section \<open>Basic facts\<close>

lemma truthy_simps [simp]:
  "truthy Undefined = False" "truthy Null = False" "truthy (Boolean b) = b"
  "truthy (Num n) = (n \<noteq> NaN \<and> n \<noteq> Fin 0)" "truthy (Str s) = (s \<noteq> [])"
  "truthy (Arr xs) = True" "truthy (Obj kvs) = True"
  by (simp_all add: truthy_def)

lemma bindE_simps [simp]:
  "bindE (Inl e) f = Inl e" "bindE (Inr x) f = f x"
  by (simp_all add: bindE_def)

lemma get_prop_Obj [simp]:
  "get_prop (Obj kvs) k = Inr (case map_of kvs k of Some x \<Rightarrow> x | None \<Rightarrow> Undefined)"
  by (simp add: get_prop_def)

lemma get_prop_nullish [simp]:
  "get_prop Undefined k = Inl TypeError" "get_prop Null k = Inl TypeError"
  by (simp_all add: get_prop_def)

lemma digit_char_is_digit: "d < 10 \<Longrightarrow> is_digit (digit_char d)"
proof -
  assume "d < 10"
  then have "d \<in> {0, 1, 2, 3, 4, 5, 6, 7, 8, 9}" by auto
  then show ?thesis by (auto simp: digit_char_def is_digit_def)
qed

lemma dec_str_digits: "list_all is_digit (dec_str n)"
proof (induction n rule: dec_str.induct)
  case (1 n)
  show ?case
  proof (cases "n < 10")
    case True
    then show ?thesis by (simp add: dec_str.simps [of n] digit_char_is_digit)
  next
    case False
    with 1 show ?thesis by (simp add: dec_str.simps [of n] digit_char_is_digit)
  qed
qed

lemma idx_of_key_nondigit [simp]: "\<not> list_all is_digit k \<Longrightarrow> idx_of_key k n = None"
  using dec_str_digits by (auto simp: idx_of_key_def find_None_iff)

lemma get_prop_Arr_name [simp]:
  "\<not> list_all is_digit k \<Longrightarrow> k \<noteq> ''length'' \<Longrightarrow> get_prop (Arr xs) k = Inr Undefined"
  by (simp add: get_prop_def)

lemma digit_val_digit_char: "d < 10 \<Longrightarrow> digit_val (digit_char d) = d"
proof -
  assume "d < 10"
  then have "d \<in> {0, 1, 2, 3, 4, 5, 6, 7, 8, 9}" by auto
  then show ?thesis by (auto simp: digit_char_def digit_val_def)
qed

lemma dec_val_snoc: "dec_val (s @ [c]) = 10 * dec_val s + digit_val c"
  by (simp add: dec_val_def)

lemma dec_val_dec_str: "dec_val (dec_str n) = n"
proof (induction n rule: dec_str.induct)
  case (1 n)
  show ?case
  proof (cases "n < 10")
    case True
    then show ?thesis
      by (simp add: dec_str.simps [of n] dec_val_def digit_val_digit_char)
  next
    case False
    with 1 show ?thesis
      by (simp add: dec_str.simps [of n] dec_val_snoc digit_val_digit_char)
  qed
qed

lemma dec_str_inj: "dec_str a = dec_str b \<Longrightarrow> a = b"
  by (metis dec_val_dec_str)




section \<open>The cache store\<close>

lemma saveToCache_items:
  "\<not> full st \<Longrightarrow> items (saveToCache st key d w) key =
     Some (Json (Obj ((''timestamp'', Num (Fin w)) #
       (if d = Undefined then [] else [(''data'', json_roundtrip d)]))))"
  by (simp add: saveToCache_def setItem_def)

text \<open>
  C7. For a stored entry \<^verbatim>\<open>{ timestamp: w, data: d }\<close> (\<open>d\<close> a payload, hence truthy) read
  at clock \<open>now\<close>, the age is \<open>now - w\<close>; with a TTL \<^verbatim>\<open>loadFromCache\<close> returns
  \<^verbatim>\<open>null\<close> exactly when \<^verbatim>\<open>age > ttl\<close>, so an entry whose age equals the TTL is
  returned, and with \<^verbatim>\<open>ttl = null\<close> the entry is returned with its age whatever the age.
\<close>

theorem loadFromCache_ttl:
  assumes "items st key = Some (Json (Obj [(''timestamp'', Num (Fin w)), (''data'', d)]))"
      and "truthy d"
  shows "(loadFromCache bi st key (Some ttl) now = None \<longleftrightarrow> js_gt (Fin (now - w)) ttl)
       \<and> (\<not> js_gt (Fin (now - w)) ttl \<longrightarrow>
            loadFromCache bi st key (Some ttl) now = Some (d, Fin (now - w)))
       \<and> loadFromCache bi st key (Some (Fin (now - w))) now = Some (d, Fin (now - w))
       \<and> loadFromCache bi st key None now = Some (d, Fin (now - w))"
  using assms
  by (simp add: loadFromCache_def loadFromCache_try_def Let_def
        to_number_def js_sub_def js_gt_def)

theorem loadFromCache_ttl_witness:
  "loadFromCache example_builtins example_store ''k'' (Some (Fin 500)) 1500
     = Some (Arr [Num (Fin 7)], Fin 500)
   \<and> loadFromCache example_builtins example_store ''k'' (Some (Fin 500)) 1501 = None
   \<and> loadFromCache example_builtins example_store ''k'' None 999999
     = Some (Arr [Num (Fin 7)], Fin 998999)"
  using loadFromCache_ttl [of example_store "''k''" 1000 "Arr [Num (Fin 7)]"
          example_builtins "Fin 500" 1500]
        loadFromCache_ttl [of example_store "''k''" 1000 "Arr [Num (Fin 7)]"
          example_builtins "Fin 500" 1501]
        loadFromCache_ttl [of example_store "''k''" 1000 "Arr [Num (Fin 7)]"
          example_builtins "Fin 500" 999999]
  by (simp add: example_store_def js_gt_def)

section \<open>Breadth percentages\<close>




lemma mapE_Inl:
  "x \<in> set xs \<Longrightarrow> f x = Inl e \<Longrightarrow> \<exists>e'. mapE f xs = Inl e'"
  by (induction xs) (auto split: sum.splits)

lemma bindE_Inr: "bindE m f = Inr y \<Longrightarrow> \<exists>x. m = Inr x \<and> f x = Inr y"
  by (cases m) auto







lemma loadFromCache_empty [simp]: "loadFromCache bi empty_store key ttl now = None"
  by (simp add: loadFromCache_def loadFromCache_try_def empty_store_def)

lemma cachedBreadth_empty [simp]: "cachedBreadth bi empty_store key now = None"
  by (simp add: cachedBreadth_def)




lemma example_number_40 [simp]: "example_number ''40'' = Fin 40" "example_number ''50'' = Fin 50"
  by (simp_all add: example_number_def is_digit_def dec_val_def digit_val_def)

lemma dec_str_40 [simp]: "dec_str 40 = ''40''" "dec_str 50 = ''50''"
  by (simp_all add: dec_str.simps digit_char_def)



section \<open>Records with no valid date\<close>

lemma get_prop_defined: "get_prop item k = Inr v \<Longrightarrow> \<exists>v'. get_prop item k' = Inr v'"
  by (cases item) (auto simp: get_prop_def)

lemma prop_or_defined: "prop_or item ks = Inr v \<Longrightarrow> ks \<noteq> [] \<Longrightarrow> \<exists>v'. get_prop item k' = Inr v'"
  by (induction item ks rule: prop_or.induct)
     (auto split: sum.splits if_splits dest: get_prop_defined)

lemma prop_nullish_defined:
  "get_prop item k = Inr v \<Longrightarrow> \<exists>v'. prop_nullish item ks d = Inr v'"
proof (induction ks)
  case Nil
  then show ?case by simp
next
  case (Cons a ks)
  from Cons.prems obtain w where "get_prop item a = Inr w"
    by (blast dest: get_prop_defined)
  with Cons show ?case by auto
qed

text \<open>
  C10. The claim holds for what \<^verbatim>\<open>mapBreadthData\<close> returns and for the complex mapper,
  but a record whose date is missing or does not parse is not filtered out by
  \<^verbatim>\<open>mapBreadthData\<close>: \<^verbatim>\<open>toISOString\<close> throws a \<^verbatim>\<open>RangeError\<close> on it before the
  filter \<^verbatim>\<open>d.timestamp > 0\<close> is reached, and the call returns no point at all.
\<close>

theorem mapBreadthData_invalid_date_throws:
  assumes "prop_or item [''date'', ''Date'', ''time'', ''t''] = Inr rawDate"
      and "rawDate = Undefined \<or> (\<exists>s. rawDate = Str s \<and> date_parse bi s = NaN)"
      and "item \<in> set data"
  shows "mapBreadthItem bi item = Inl RangeError \<and> (\<exists>e. mapBreadthData bi data = Inl e)"
proof -
  from assms(1) obtain tot where tot: "get_prop item ''total'' = Inr tot"
    by (blast dest: prop_or_defined)
  from tot obtain v20 where
    "prop_nullish item [''ma20'', ''avg_ma20'', ''pct_ma20''] (Num (Fin 0)) = Inr v20"
    by (blast dest: prop_nullish_defined)
  moreover from tot obtain v50 where
    "prop_nullish item [''ma50'', ''avg_ma50'', ''pct_ma50''] (Num (Fin 0)) = Inr v50"
    by (blast dest: prop_nullish_defined)
  moreover from tot obtain v200 where
    "prop_nullish item [''ma200'', ''avg_ma200'', ''pct_ma200''] (Num (Fin 0)) = Inr v200"
    by (blast dest: prop_nullish_defined)
  ultimately have item: "mapBreadthItem bi item = Inl RangeError"
    using assms(1,2) tot unfolding mapBreadthItem_def
    by (auto simp: Let_def to_iso_date_def date_time_def time_clip_def to_number_def)
  with assms(3) obtain e where "mapE (mapBreadthItem bi) data = Inl e"
    by (blast dest: mapE_Inl)
  with item show ?thesis by (simp add: mapBreadthData_def)
qed

theorem mapBreadthData_invalid_date_throws_witness:
  "mapBreadthData example_builtins [flat_record, bad_date_record] = Inl RangeError
   \<and> mapBreadthData example_builtins [flat_record, no_date_record] = Inl RangeError"
proof -
  have "mapBreadthItem example_builtins bad_date_record = Inl RangeError"
    using mapBreadthData_invalid_date_throws [of bad_date_record "Str ''not a date''"
            example_builtins "[bad_date_record]"]
    by (simp add: bad_date_record_def example_builtins_def)
  moreover have "mapBreadthItem example_builtins no_date_record = Inl RangeError"
    using mapBreadthData_invalid_date_throws [of no_date_record Undefined
            example_builtins "[no_date_record]"]
    by (simp add: no_date_record_def)
  moreover have "\<exists>p. mapBreadthItem example_builtins flat_record = Inr p"
    by (simp add: mapBreadthItem_def flat_record_def example_builtins_def Let_def
          to_iso_date_def date_time_def time_clip_def to_number_def)
  ultimately show ?thesis
    by (auto simp: mapBreadthData_def)
qed

text \<open>What does hold of the two mappers.\<close>

lemma mapBreadthData_positive:
  "mapBreadthData bi data = Inr pts \<Longrightarrow> p \<in> set pts \<Longrightarrow> positive_timestamp bi p"
  by (auto simp: mapBreadthData_def dest!: bindE_Inr)

lemma complexPoint_unparsed_date:
  "date_time bi (e_date e) = NaN \<Longrightarrow> get_prop (complexPoint bi e) ''timestamp'' = Inr (Num (Fin 0))"
  by (simp add: complexPoint_def breadth_point_def Let_def)

section \<open>fetchVNIndexData\<close>

lemma loadFromCache_Some:
  "loadFromCache bi st key ttl now = Some (d, a) \<Longrightarrow>
     \<exists>payload. items st key = Some (Json payload) \<and> get_prop payload ''data'' = Inr d \<and> truthy d"
  by (auto simp: loadFromCache_def loadFromCache_try_def Let_def
        split: option.splits item.splits sum.splits if_splits dest!: bindE_Inr)

text \<open>
  C8. \<^verbatim>\<open>fetchVNIndexData\<close> resolves for every URL, store, clock and transport outcome. When
  no fresh entry is cached and the fetch fails (both requests fail, the body is falsy, or
  \<^verbatim>\<open>parseVNIndexData\<close> throws), it resolves to the payload of the entry stored under the
  key, read with no TTL, and to the empty list when there is none; the store is left as
  it was. Where the entry under the key holds a list, as every entry this function
  writes does, the value resolved to is a list.
\<close>

theorem fetchVNIndexData_never_raises:
  fixes bi url st now1 tr now2
  defines "key \<equiv> getCacheKey bi ''VNINDEX''
             [(''url'', Str (case url of None \<Rightarrow> DEFAULT_VNINDEX_URL
                             | Some u \<Rightarrow> if u = [] then DEFAULT_VNINDEX_URL else u))]"
      and "out \<equiv> fetchVNIndexData bi url st now1 tr now2"
  shows "(\<exists>v. resolved out = Inr v)
       \<and> (loadFromCache bi st key (Some (Fin VNINDEX_TTL)) now1 = None \<longrightarrow>
            ((\<exists>e. fetchWithFallback tr = Inl e)
             \<or> (\<exists>data. fetchWithFallback tr = Inr data
                  \<and> (\<not> truthy data \<or> (\<exists>e. parseVNIndexData bi data = Inl e)))) \<longrightarrow>
            resolved out = Inr (case loadFromCache bi st key None now2 of
                                  Some staleCache \<Rightarrow> fst staleCache
                                | None \<Rightarrow> Arr [])
            \<and> store out = st)
       \<and> ((\<forall>payload d. items st key = Some (Json payload) \<longrightarrow>
               get_prop payload ''data'' = Inr d \<longrightarrow> truthy d \<longrightarrow> is_array d) \<longrightarrow>
            (\<exists>xs. resolved out = Inr (Arr xs)))"
proof -
  have never: "\<exists>v. resolved out = Inr v"
    by (simp add: out_def fetchVNIndexData_def Let_def split: option.splits sum.splits)
  have fallback: "resolved out = Inr (case loadFromCache bi st key None now2 of
                                  Some staleCache \<Rightarrow> fst staleCache
                                | None \<Rightarrow> Arr [])
            \<and> store out = st"
    if "loadFromCache bi st key (Some (Fin VNINDEX_TTL)) now1 = None"
     and "(\<exists>e. fetchWithFallback tr = Inl e)
             \<or> (\<exists>data. fetchWithFallback tr = Inr data
                  \<and> (\<not> truthy data \<or> (\<exists>e. parseVNIndexData bi data = Inl e)))"
    using that by (auto simp: out_def key_def fetchVNIndexData_def Let_def)
  have arrays: "\<exists>xs. resolved out = Inr (Arr xs)"
    if arr: "\<forall>payload d. items st key = Some (Json payload) \<longrightarrow>
               get_prop payload ''data'' = Inr d \<longrightarrow> truthy d \<longrightarrow> is_array d"
  proof -
    have cached: "\<exists>xs. d = Arr xs" if "loadFromCache bi st key ttl now = Some (d, a)" for ttl now d a
      using loadFromCache_Some [OF that] arr by (cases d) (auto simp: is_array_def)
    show ?thesis
    proof (cases "loadFromCache bi st key (Some (Fin VNINDEX_TTL)) now1")
      case (Some hit)
      with cached [of "Some (Fin VNINDEX_TTL)" now1 "fst hit" "snd hit"] show ?thesis
        by (simp add: out_def key_def fetchVNIndexData_def Let_def)
    next
      case None
      show ?thesis
      proof (cases "loadFromCache bi st key None now2")
        case stale: (Some hit)
        with None cached [of None now2 "fst hit" "snd hit"] show ?thesis
          by (auto simp: out_def key_def fetchVNIndexData_def Let_def split: sum.splits)
      next
        case stale: None
        with None show ?thesis
          by (auto simp: out_def key_def fetchVNIndexData_def Let_def split: sum.splits)
      qed
    qed
  qed
  from never fallback arrays show ?thesis by blast
qed

theorem fetchVNIndexData_never_raises_witness:
  "resolved (fetchVNIndexData example_builtins None stale_store (VNINDEX_TTL + 1) unreachable
      (VNINDEX_TTL + 2)) = Inr (Arr [index_point (Num (Fin 1704067200000)) (Fin 1100)])
   \<and> resolved (fetchVNIndexData example_builtins None empty_store 0 (answers Null) 1) = Inr (Arr [])"
proof -
  have stale: "loadFromCache example_builtins stale_store vnindex_key (Some (Fin VNINDEX_TTL))
                 (VNINDEX_TTL + 1) = None"
    by (simp add: loadFromCache_def loadFromCache_try_def stale_store_def Let_def
          to_number_def js_sub_def js_gt_def)
  have load: "loadFromCache example_builtins stale_store vnindex_key None (VNINDEX_TTL + 2)
                = Some (Arr [index_point (Num (Fin 1704067200000)) (Fin 1100)], Fin (VNINDEX_TTL + 2))"
    by (simp add: loadFromCache_def loadFromCache_try_def stale_store_def Let_def
          to_number_def js_sub_def js_gt_def)
  have "fetchWithFallback unreachable = Inl FetchError"
    by (simp add: fetchWithFallback_def unreachable_def)
  with stale load
  have "resolved (fetchVNIndexData example_builtins None stale_store (VNINDEX_TTL + 1)
          unreachable (VNINDEX_TTL + 2))
        = Inr (Arr [index_point (Num (Fin 1704067200000)) (Fin 1100)])"
    using fetchVNIndexData_never_raises [of example_builtins None stale_store "VNINDEX_TTL + 1"
            unreachable "VNINDEX_TTL + 2"]
    by (simp add: vnindex_key_def)
  moreover have "fetchWithFallback (answers Null) = Inr Null"
    by (simp add: fetchWithFallback_def answers_def)
  then have "resolved (fetchVNIndexData example_builtins None empty_store 0 (answers Null) 1)
        = Inr (Arr [])"
    using fetchVNIndexData_never_raises [of example_builtins None empty_store 0 "answers Null" 1]
    by simp
  ultimately show ?thesis by simp
qed

section \<open>parseVNIndexData on an array of objects\<close>

lemma mapE_all_Inr: "(\<And>x. x \<in> set xs \<Longrightarrow> f x = Inr (g x)) \<Longrightarrow> mapE f xs = Inr (map g xs)"
  by (induction xs) auto

lemma prop_or_first_present:
  assumes "\<forall>k \<in> set ks. \<forall>v. map_of kvs k = Some v \<longrightarrow> truthy v"
  shows "prop_or (Obj kvs) ks =
           Inr (case first_present kvs ks of Some v \<Rightarrow> v | None \<Rightarrow> Undefined)"
  using assms
  by (induction "Obj kvs" ks rule: prop_or.induct) (auto split: option.splits)

lemma first_present_truthy:
  "\<forall>k \<in> set ks. \<forall>v. map_of kvs k = Some v \<longrightarrow> truthy v \<Longrightarrow> first_present kvs ks = Some v \<Longrightarrow> truthy v"
  by (induction ks) (auto split: option.splits)

lemma parseObjectItem_present:
  assumes "\<forall>k \<in> set (time_keys @ close_keys). \<forall>v. map_of kvs k = Some v \<longrightarrow> truthy v"
  shows "parseObjectItem bi (Obj kvs) =
           Inr (case present_point bi kvs of [] \<Rightarrow> Null | p # _ \<Rightarrow> p)"
proof -
  have t: "\<forall>k \<in> set time_keys. \<forall>v. map_of kvs k = Some v \<longrightarrow> truthy v"
   and c: "\<forall>k \<in> set close_keys. \<forall>v. map_of kvs k = Some v \<longrightarrow> truthy v"
    using assms by auto
  have tu: "v \<noteq> Undefined" if "first_present kvs time_keys = Some v" for v
    using first_present_truthy [OF t that] by auto
  have cu: "v \<noteq> Undefined" if "first_present kvs close_keys = Some v" for v
    using first_present_truthy [OF c that] by auto
  show ?thesis
    unfolding parseObjectItem_def prop_or_first_present [OF t] prop_or_first_present [OF c]
    by (auto simp: present_point_def Let_def split: option.splits dest: tu cu)
qed

lemma parseVNIndexData_Arr:
  "parseVNIndexData bi (Arr xs) = parseShapes bi (Arr xs)"
  by (simp add: parseVNIndexData.simps [of bi "Arr xs"] is_digit_def)

lemma filter_present:
  "filter (\<lambda>p. p \<noteq> Null) (map (\<lambda>kvs. case present_point bi kvs of [] \<Rightarrow> Null | p # _ \<Rightarrow> p) recs)
     = concat (map (present_point bi) recs)"
  by (induction recs) (auto simp: present_point_def index_point_def split: option.splits)

text \<open>
  C3, amended. For an array of objects in which every time or value key that is present
  holds a truthy value, \<^verbatim>\<open>parseVNIndexData\<close> takes the time of each record from the first
  present key in the order date, time, t, Date, Time, dt and the close from the first
  present key in the order value, close, c, Close, Price, price, v, adClose, adjClose, and
  drops a record exactly when one of the two is missing.
\<close>

theorem parseVNIndexData_objects:
  assumes "\<forall>kvs \<in> set recs. \<forall>k \<in> set (time_keys @ close_keys). \<forall>v.
             map_of kvs k = Some v \<longrightarrow> truthy v"
  shows "parseVNIndexData bi (Arr (map Obj recs)) = Inr (concat (map (present_point bi) recs))"
proof -
  have "mapE (parseObjectItem bi) (map Obj recs) =
          Inr (map (\<lambda>x. case x of Obj kvs \<Rightarrow>
                           (case present_point bi kvs of [] \<Rightarrow> Null | p # _ \<Rightarrow> p) | _ \<Rightarrow> Null)
                 (map Obj recs))"
    using assms by (intro mapE_all_Inr) (auto simp: parseObjectItem_present)
  moreover have "\<not> (map Obj recs \<noteq> [] \<and> is_array (hd (map Obj recs)))"
    by (cases recs) (simp_all add: is_array_def)
  ultimately show ?thesis
    by (auto simp: parseVNIndexData_Arr parseShapes_def comp_def filter_present)
qed

theorem parseVNIndexData_objects_witness:
  "parseVNIndexData example_builtins (Arr [Obj close_record, Obj no_value_record]) =
     Inr [index_point (Num (Fin 1704153600000)) (Fin 1100)]"
  using parseVNIndexData_objects [of "[close_record, no_value_record]" example_builtins]
  by (simp add: close_record_def no_value_record_def time_keys_def close_keys_def
        present_point_def scale_ms_def to_number_def)

text \<open>
  C3 as stated fails: the keys are probed with \<^verbatim>\<open>||\<close>, so a present value of 0 counts as
  absent. A record with a date and \<^verbatim>\<open>value: 0\<close> is dropped, and one with \<^verbatim>\<open>value: 0\<close> and
  \<^verbatim>\<open>close: 5\<close> gets its close from the second key; by the rule of the claim both are kept
  with close 0.
\<close>

theorem parseVNIndexData_zero_counterexample:
  "parseVNIndexData example_builtins (Arr [Obj zero_value_record]) = Inr []
   \<and> present_point example_builtins zero_value_record =
       [index_point (Num (Fin 1704067200000)) (Fin 0)]
   \<and> parseVNIndexData example_builtins (Arr [Obj zero_then_close_record]) =
       Inr [index_point (Num (Fin 1704067200000)) (Fin 5)]
   \<and> present_point example_builtins zero_then_close_record =
       [index_point (Num (Fin 1704067200000)) (Fin 0)]"
  by (simp add: parseVNIndexData_Arr parseShapes_def is_array_def parseObjectItem_def
        zero_value_record_def zero_then_close_record_def time_keys_def close_keys_def
        present_point_def scale_ms_def to_number_def example_builtins_def index_point_def)

section \<open>parseVNIndexData on finite records\<close>












section \<open>The merge engine: index series\<close>

lemma map_of_on_day:
  "map_of (on_day m key f) k = (if k = key then map_option f (map_of m k) else map_of m k)"
  by (induction m) (auto simp: on_day_def)

lemma map_of_getOrCreate:
  "map_of (getOrCreate bi m ts key) k =
     (if k = key \<and> map_of m key = None then Some (fresh_record bi ts key) else map_of m k)"
proof (cases "map_of m key")
  case None
  then have "key \<notin> set (map fst m)" by (simp add: map_of_eq_None_iff)
  with None show ?thesis
    by (auto simp: getOrCreate_def fresh_record_def map_add_def split: option.splits)
next
  case (Some r)
  then have "key \<in> set (map fst m)" by (metis map_of_eq_None_iff option.distinct(1) set_map)
  with Some show ?thesis by (simp add: getOrCreate_def)
qed

lemma map_of_set_prop: "map_of (set_prop r f v) g = (if g = f then Some v else map_of r g)"
  by (induction r) auto

lemma mergeIndexPoint_map_of:
  assumes "mergeIndexPoint bi fld m v = Inr m'"
  shows "\<exists>ts day c. get_prop v ''timestamp'' = Inr ts \<and> day_of bi v = Some day
           \<and> get_prop v ''close'' = Inr c
           \<and> (\<forall>k. map_of m' k = (if k = day then Some (merged_day bi fld m ts day c)
                                  else map_of m k))"
proof -
  from assms obtain ts day c where
    a: "get_prop v ''timestamp'' = Inr ts" "to_iso_date bi ts = Inr day"
       "get_prop v ''close'' = Inr c" and
    m': "m' = (if c \<noteq> Null \<and> c \<noteq> Undefined
           then on_day (getOrCreate bi m ts day) day (\<lambda>item. set_prop item fld c)
           else getOrCreate bi m ts day)"
    unfolding mergeIndexPoint_def Let_def by (auto dest!: bindE_Inr)
  have "day_of bi v = Some day" using a by (simp add: day_of_def)
  moreover have "map_of m' k = (if k = day then Some (merged_day bi fld m ts day c)
                                  else map_of m k)" for k
    unfolding m' merged_day_def
    by (simp add: map_of_on_day map_of_getOrCreate split: option.splits)
  ultimately show ?thesis using a by blast
qed

lemma fresh_record_index_field:
  "f \<in> index_fields \<Longrightarrow> map_of (fresh_record bi ts key) f = Some Undefined"
  by (auto simp: index_fields_def fresh_record_def)

lemma mergeIndexPoint_writes:
  assumes "mergeIndexPoint bi fld m v = Inr m'" "day_of bi v = Some day"
      and "get_prop v ''close'' = Inr c" "fld \<in> index_fields"
  shows "day_field m' day fld = (if c = Null \<or> c = Undefined then day_field m day fld else c)"
proof -
  from mergeIndexPoint_map_of [OF assms(1)] assms(2,3) obtain ts where
    "map_of m' day = Some (merged_day bi fld m ts day c)"
    by auto
  with assms(4) show ?thesis
    by (simp add: day_field_def merged_day_def map_of_set_prop fresh_record_index_field
          split: option.splits)
qed

lemma mergeIndexPoint_other_day:
  assumes "mergeIndexPoint bi fld m v = Inr m'" "day_of bi v \<noteq> Some day"
  shows "map_of m' day = map_of m day"
  using mergeIndexPoint_map_of [OF assms(1)] assms(2) by auto

lemma mergeIndexPoint_other_field:
  assumes "mergeIndexPoint bi fld m v = Inr m'" "g \<noteq> fld" "map_of m day \<noteq> None"
  shows "day_field m' day g = day_field m day g \<and> map_of m' day \<noteq> None"
proof -
  from mergeIndexPoint_map_of [OF assms(1)] obtain ts day' c where
    k: "map_of m' day = (if day = day' then Some (merged_day bi fld m ts day' c)
                          else map_of m day)"
    by auto
  with assms(2,3) show ?thesis
    by (auto simp: day_field_def merged_day_def map_of_set_prop split: option.splits)
qed

lemma mergeSeries_other_day:
  assumes "foldE (mergeIndexPoint bi fld) m pts = Inr m'"
      and "\<forall>v \<in> set pts. day_of bi v \<noteq> Some day"
  shows "map_of m' day = map_of m day"
  using assms
proof (induction pts arbitrary: m)
  case Nil
  then show ?case by simp
next
  case (Cons v pts)
  from Cons.prems(1) obtain m1 where
    m1: "mergeIndexPoint bi fld m v = Inr m1" and rest: "foldE (mergeIndexPoint bi fld) m1 pts = Inr m'"
    by (auto split: sum.splits)
  from Cons.IH [OF rest] Cons.prems(2) have "map_of m' day = map_of m1 day" by simp
  also from m1 Cons.prems(2) have "map_of m1 day = map_of m day"
    by (intro mergeIndexPoint_other_day) auto
  finally show ?case .
qed

lemma mergeSeries_other_field:
  assumes "foldE (mergeIndexPoint bi fld) m pts = Inr m'" "g \<noteq> fld" "map_of m day \<noteq> None"
  shows "day_field m' day g = day_field m day g"
  using assms
proof (induction pts arbitrary: m)
  case Nil
  then show ?case by simp
next
  case (Cons v pts)
  from Cons.prems(1) obtain m1 where
    m1: "mergeIndexPoint bi fld m v = Inr m1" and rest: "foldE (mergeIndexPoint bi fld) m1 pts = Inr m'"
    by (auto split: sum.splits)
  from mergeIndexPoint_other_field [OF m1 Cons.prems(2,3)]
  have step: "day_field m1 day g = day_field m day g" and there: "map_of m1 day \<noteq> None"
    by simp_all
  from Cons.IH [OF rest Cons.prems(2) there] step show ?case by simp
qed

lemma mergeSources_Inr:
  assumes "mergeSources bi breadthData vnIndexFixedData capData sectorData = Inr m"
  shows "\<exists>m1 m2 m3. foldE (mergeBreadthPoint bi) [] breadthData = Inr m1
           \<and> foldE (mergeIndexPoint bi ''vnIndex'') m1 vnIndexFixedData = Inr m2
           \<and> foldE (mergeIndexPoint bi ''capVal'') m2 capData = Inr m3
           \<and> foldE (mergeIndexPoint bi ''sectorVal'') m3 sectorData = Inr m"
  using assms unfolding mergeSources_def by (auto dest!: bindE_Inr)

text \<open>
  C5. Merging a point of an index series into the map writes the field of the series on
  the record of the point's day exactly when the close is neither \<^verbatim>\<open>undefined\<close> nor
  \<^verbatim>\<open>null\<close> (a close of 0 is written as 0), and leaves it as it was otherwise; a series with
  no point on a day leaves the record of that day unchanged; and a series never changes
  a field other than its own on a record that exists. \<^verbatim>\<open>chartData\<close> merges the breadth
  points and then the three series in this way, with the fields \<^verbatim>\<open>vnIndex\<close>,
  \<^verbatim>\<open>capVal\<close> and \<^verbatim>\<open>sectorVal\<close>.
\<close>

theorem merge_index_series:
  "(mergeIndexPoint bi fld m v = Inr m1 \<and> fld \<in> index_fields \<and> day_of bi v = Some day
      \<and> get_prop v ''close'' = Inr c \<longrightarrow>
      day_field m1 day fld = (if c = Null \<or> c = Undefined then day_field m day fld else c))
   \<and> (foldE (mergeIndexPoint bi fld) m pts = Inr m' \<and> (\<forall>v \<in> set pts. day_of bi v \<noteq> Some day') \<longrightarrow>
        map_of m' day' = map_of m day')
   \<and> (foldE (mergeIndexPoint bi fld) m pts = Inr m' \<and> g \<noteq> fld \<and> map_of m day'' \<noteq> None \<longrightarrow>
        day_field m' day'' g = day_field m day'' g)
   \<and> (mergeSources bi breadthData vnIndexFixedData capData sectorData = Inr merged \<longrightarrow>
        (\<exists>m1 m2 m3. foldE (mergeBreadthPoint bi) [] breadthData = Inr m1
           \<and> foldE (mergeIndexPoint bi ''vnIndex'') m1 vnIndexFixedData = Inr m2
           \<and> foldE (mergeIndexPoint bi ''capVal'') m2 capData = Inr m3
           \<and> foldE (mergeIndexPoint bi ''sectorVal'') m3 sectorData = Inr merged))"
  using mergeIndexPoint_writes [of bi fld m v m1 day c]
        mergeSeries_other_day [of bi fld m pts m' day']
        mergeSeries_other_field [of bi fld m pts m' g day'']
        mergeSources_Inr [of bi breadthData vnIndexFixedData capData sectorData merged]
  by blast

lemmas merge_eval =
  mergeIndexPoint_def to_iso_date_def date_time_def time_clip_def to_number_def
  example_builtins_def getOrCreate_def formatDate_def pad_start2_def num_str_def
  dec_str.simps digit_char_def on_day_def Let_def

theorem merge_index_series_witness:
  "mergeIndexPoint example_builtins ''vnIndex'' [] zero_close_point = Inr first_day_map
   \<and> day_field first_day_map ''2024-01-01'' ''vnIndex'' = Num (Fin 0)
   \<and> foldE (mergeIndexPoint example_builtins ''capVal'') first_day_map
        [null_close_point, next_day_point] = Inr two_day_map
   \<and> day_field two_day_map ''2024-01-01'' ''vnIndex'' = Num (Fin 0)
   \<and> day_field two_day_map ''2024-01-01'' ''capVal'' = Undefined
   \<and> foldE (mergeIndexPoint example_builtins ''sectorVal'') first_day_map [next_day_point]
        = Inr two_day_sector_map
   \<and> map_of two_day_sector_map ''2024-01-01'' = map_of first_day_map ''2024-01-01''"
proof -
  have one: "mergeIndexPoint example_builtins ''vnIndex'' [] zero_close_point = Inr first_day_map"
    by (simp add: merge_eval zero_close_point_def first_day_map_def)
  have day: "day_of example_builtins zero_close_point = Some ''2024-01-01''"
    by (simp add: day_of_def merge_eval zero_close_point_def)
  have zero: "day_field first_day_map ''2024-01-01'' ''vnIndex'' = Num (Fin 0)"
    using merge_index_series [of example_builtins "''vnIndex''" "[]" zero_close_point
            first_day_map "''2024-01-01''" "Num (Fin 0)"] one day
    by (simp add: index_fields_def zero_close_point_def)
  have two: "foldE (mergeIndexPoint example_builtins ''capVal'') first_day_map
        [null_close_point, next_day_point] = Inr two_day_map"
    by (simp add: merge_eval null_close_point_def next_day_point_def first_day_map_def
          two_day_map_def)
  have kept: "day_field two_day_map ''2024-01-01'' ''vnIndex'' = Num (Fin 0)"
    using merge_index_series [of example_builtins "''capVal''" first_day_map _ _ _ _
            "[null_close_point, next_day_point]" two_day_map _ "''vnIndex''" "''2024-01-01''"]
          two zero
    by (simp add: first_day_map_def)
  have none: "day_field two_day_map ''2024-01-01'' ''capVal'' = Undefined"
    by (simp add: day_field_def two_day_map_def first_day_map_def)
  have three: "foldE (mergeIndexPoint example_builtins ''sectorVal'') first_day_map
        [next_day_point] = Inr two_day_sector_map"
    by (simp add: merge_eval next_day_point_def first_day_map_def two_day_sector_map_def)
  have "day_of example_builtins next_day_point = Some ''2024-01-02''"
    by (simp add: day_of_def merge_eval next_day_point_def)
  then have same: "map_of two_day_sector_map ''2024-01-01'' = map_of first_day_map ''2024-01-01''"
    using merge_index_series [of example_builtins "''sectorVal''" first_day_map _ _ _ _
            "[next_day_point]" two_day_sector_map "''2024-01-01''"] three
    by simp
  from one zero two kept none three same show ?thesis by simp
qed

section \<open>Cache keys\<close>

lemma sorted_wrt_remdups: "sorted_wrt P xs \<Longrightarrow> sorted_wrt P (remdups xs)"
  by (induction xs) auto

lemma property_list_sorted:
  fixes xs :: "string list"
  assumes "sorted xs"
  shows "sorted (property_list xs) \<and> distinct (property_list xs) \<and> set (property_list xs) = set xs"
proof -
  have "sorted_wrt (\<lambda>a b. b \<le> a) (rev xs)"
    using assms by (simp add: sorted_wrt_rev)
  then have "sorted_wrt (\<lambda>a b. b \<le> a) (remdups (rev xs))"
    by (rule sorted_wrt_remdups)
  then have "sorted (rev (remdups (rev xs)))"
    by (simp add: sorted_wrt_rev)
  then show ?thesis by (simp add: property_list_def)
qed

lemma sort_keys_eq:
  assumes "fst ` set ps = fst ` set qs"
  shows "property_list (sort (map fst ps)) = property_list (sort (map fst qs))"
proof -
  from assms have "set (sort (map fst ps)) = set (sort (map fst qs))" by simp
  with property_list_sorted [of "sort (map fst ps)"] property_list_sorted [of "sort (map fst qs)"]
  show ?thesis
    by (intro sorted_distinct_set_unique) simp_all
qed

lemma same_pairs_same_keys: "map_of ps = map_of qs \<Longrightarrow> fst ` set ps = fst ` set qs"
  by (simp add: dom_map_of_conv_image_fst [symmetric])

lemma getCacheKey_same_pairs:
  assumes "map_of ps = map_of qs"
  shows "getCacheKey bi prefix ps = getCacheKey bi prefix qs"
proof -
  have "json_stringify bi (Some (property_list (sort (map fst ps)))) (Obj ps)
      = json_stringify bi (Some (property_list (sort (map fst qs)))) (Obj qs)"
    unfolding sort_keys_eq [OF same_pairs_same_keys [OF assms]] using assms by simp
  then show ?thesis by (simp add: getCacheKey_def)
qed

lemma hex_val_hex_digit: "d < 16 \<Longrightarrow> hex_val (hex_digit d) = d"
proof -
  have "list_all (\<lambda>d. hex_val (hex_digit d) = d) [0..<16]"
    by code_simp
  then show "d < 16 \<Longrightarrow> hex_val (hex_digit d) = d"
    by (simp add: list_all_iff)
qed

lemma unescape1_escape: "unescape1 (json_escape_char c @ u) = Some (c, u)"
proof -
  have low: "char_of (16 * hex_val (hex_digit (of_char c div 16))
               + hex_val (hex_digit (of_char c mod 16)) :: nat) = c"
    if "(of_char c :: nat) < 32"
  proof -
    from that have "(of_char c :: nat) div 16 < 16" "(of_char c :: nat) mod 16 < 16" by auto
    then show ?thesis by (simp add: hex_val_hex_digit)
  qed
  show ?thesis
    by (auto simp: json_escape_char_def unescape1_def low)
qed

lemma escape_first: "\<exists>h t. json_escape_char c = h # t \<and> h \<noteq> CHR 0x22"
  by (auto simp: json_escape_char_def)

lemma escape_inj:
  "concat (map json_escape_char s) @ CHR 0x22 # x = concat (map json_escape_char s') @ CHR 0x22 # x'
     \<Longrightarrow> s = s' \<and> x = x'"
proof (induction s arbitrary: s')
  case Nil
  show ?case
  proof (cases s')
    case Nil
    with Nil.prems show ?thesis by simp
  next
    case (Cons c t)
    obtain h r where "json_escape_char c = h # r" "h \<noteq> CHR 0x22"
      using escape_first by blast
    with Nil.prems Cons show ?thesis by simp
  qed
next
  case (Cons c t)
  show ?case
  proof (cases s')
    case Nil
    obtain h r where "json_escape_char c = h # r" "h \<noteq> CHR 0x22"
      using escape_first by blast
    with Cons.prems Nil show ?thesis by simp
  next
    case (Cons c' t')
    let ?u = "concat (map json_escape_char t) @ CHR 0x22 # x"
    let ?u' = "concat (map json_escape_char t') @ CHR 0x22 # x'"
    from Cons.prems Cons have eq: "json_escape_char c @ ?u = json_escape_char c' @ ?u'"
      by simp
    then have "unescape1 (json_escape_char c @ ?u) = unescape1 (json_escape_char c' @ ?u')"
      by simp
    then have "c = c'" "?u = ?u'" by (simp_all add: unescape1_escape)
    with Cons.IH [of t'] Cons show ?thesis by simp
  qed
qed

lemma json_quote_inj: "json_quote s @ r = json_quote s' @ r' \<Longrightarrow> s = s' \<and> r = r'"
  using escape_inj [of s r s' r'] by (simp add: json_quote_def)

lemma delim_cut:
  assumes "set xs \<subseteq> A" "set ys \<subseteq> A" "d \<notin> A" "d' \<notin> A" "xs @ d # r = ys @ d' # r'"
  shows "xs = ys \<and> d # r = d' # r'"
proof -
  have "takeWhile (\<lambda>c. c \<in> A) (xs @ d # r) = xs" "takeWhile (\<lambda>c. c \<in> A) (ys @ d' # r') = ys"
    using assms(1-4) by (auto simp: takeWhile_append2 subset_iff)
  with assms(5) have "xs = ys" by simp
  with assms(5) show ?thesis by simp
qed

lemma atom_text:
  assumes "plain_value v" "\<forall>s. v \<noteq> Str s" "json_stringify bi wl v = Some t"
      and "\<forall>q. v = Num (Fin q) \<longrightarrow> num_to_str bi q \<noteq> [] \<and> set (num_to_str bi q) \<subseteq> number_chars"
  shows "t \<noteq> [] \<and> set t \<subseteq> atom_chars"
  using assms
  by (cases v) (auto simp: plain_value_def atom_chars_def split: jsnum.splits if_splits)

lemma literal_not_number:
  "''true'' = s \<Longrightarrow> set s \<subseteq> number_chars \<Longrightarrow> False"
  "''false'' = s \<Longrightarrow> set s \<subseteq> number_chars \<Longrightarrow> False"
  "''null'' = s \<Longrightarrow> set s \<subseteq> number_chars \<Longrightarrow> False"
  "CHR ''n'' \<in> number_chars \<Longrightarrow> False"
  "CHR ''t'' \<in> number_chars \<Longrightarrow> False"
  "CHR ''f'' \<in> number_chars \<Longrightarrow> False"
  by (auto simp: number_chars_def)

lemma atom_text_inj:
  assumes "plain_value v" "plain_value v'" "\<forall>s. v \<noteq> Str s" "\<forall>s. v' \<noteq> Str s"
      and "json_stringify bi wl v = Some t" "json_stringify bi wl v' = Some t"
      and "\<forall>q. v = Num (Fin q) \<longrightarrow> set (num_to_str bi q) \<subseteq> number_chars"
      and "\<forall>q. v' = Num (Fin q) \<longrightarrow> set (num_to_str bi q) \<subseteq> number_chars"
      and "\<forall>q q'. v = Num (Fin q) \<longrightarrow> v' = Num (Fin q') \<longrightarrow> num_to_str bi q = num_to_str bi q' \<longrightarrow> q = q'"
  shows "v = v'"
  using assms
  by (cases v; cases v')
     (auto simp: plain_value_def split: jsnum.splits if_splits dest: literal_not_number)

lemma delimiter_not_atom: "d \<in> {CHR '','', CHR ''}'', CHR 0x22} \<Longrightarrow> d \<notin> atom_chars"
  by (auto simp: atom_chars_def number_chars_def)

lemma value_text_cut:
  assumes ok: "number_text_ok bi nums"
      and v: "plain_value v" "\<forall>q. v = Num (Fin q) \<longrightarrow> q \<in> set nums"
      and v': "plain_value v'" "\<forall>q. v' = Num (Fin q) \<longrightarrow> q \<in> set nums"
      and t: "json_stringify bi wl v = Some t" "json_stringify bi wl v' = Some t'"
      and d: "d \<in> {CHR '','', CHR ''}''}" "d' \<in> {CHR '','', CHR ''}''}"
      and eq: "t @ d # r = t' @ d' # r'"
  shows "v = v' \<and> d # r = d' # r'"
proof -
  have num: "num_to_str bi q \<noteq> [] \<and> set (num_to_str bi q) \<subseteq> number_chars" if "q \<in> set nums" for q
    using ok that by (simp add: number_text_ok_def list_all_iff)
  have inj: "q = q'" if "q \<in> set nums" "q' \<in> set nums" "num_to_str bi q = num_to_str bi q'" for q q'
    using ok that by (auto simp: number_text_ok_def dest: inj_onD)
  have atom: "u \<noteq> [] \<and> set u \<subseteq> atom_chars"
    if "plain_value w" "\<forall>s. w \<noteq> Str s" "json_stringify bi wl w = Some u"
       "\<forall>q. w = Num (Fin q) \<longrightarrow> q \<in> set nums" for w u
    using that num by (intro atom_text [of w bi wl u]) auto
  have quote_atom: False
    if "json_quote s @ x = u @ y" "u \<noteq> []" "set u \<subseteq> atom_chars" for s x u y
  proof -
    from that(2) obtain h rest where u: "u = h # rest" by (cases u) auto
    with that(1) have "h = CHR 0x22" by (simp add: json_quote_def)
    with that(3) u show False using delimiter_not_atom [of "CHR 0x22"] by auto
  qed
  show ?thesis
  proof (cases "\<exists>s. v = Str s")
    case True
    then obtain s where s: "v = Str s" by blast
    show ?thesis
    proof (cases "\<exists>s'. v' = Str s'")
      case True
      then obtain s' where "v' = Str s'" by blast
      with s t eq show ?thesis using json_quote_inj [of s "d # r" s' "d' # r'"] by simp
    next
      case False
      with atom [of v' t'] v' t have "t' \<noteq> [] \<and> set t' \<subseteq> atom_chars" by blast
      with quote_atom [of s "d # r" t' "d' # r'"] s t eq show ?thesis by simp
    qed
  next
    case False
    with atom [of v t] v t have a: "t \<noteq> [] \<and> set t \<subseteq> atom_chars" by blast
    show ?thesis
    proof (cases "\<exists>s'. v' = Str s'")
      case True
      then obtain s' where "v' = Str s'" by blast
      with quote_atom [of s' "d' # r'" t "d # r"] a t eq show ?thesis by simp
    next
      case nostr: False
      with atom [of v' t'] v' t have a': "t' \<noteq> [] \<and> set t' \<subseteq> atom_chars" by blast
      have "d \<notin> atom_chars" "d' \<notin> atom_chars" using d delimiter_not_atom by auto
      with delim_cut [of t atom_chars t' d d' r r'] a a' eq
      have same: "t = t'" and rest: "d # r = d' # r'" by simp_all
      have "v = v'"
      proof (rule atom_text_inj [of v v' bi wl t])
        show "json_stringify bi wl v' = Some t" using t same by simp
        show "\<forall>q. v = Num (Fin q) \<longrightarrow> set (num_to_str bi q) \<subseteq> number_chars"
          using v num by blast
        show "\<forall>q. v' = Num (Fin q) \<longrightarrow> set (num_to_str bi q) \<subseteq> number_chars"
          using v' num by blast
        show "\<forall>q q'. v = Num (Fin q) \<longrightarrow> v' = Num (Fin q') \<longrightarrow>
                num_to_str bi q = num_to_str bi q' \<longrightarrow> q = q'"
          using v v' inj by blast
      qed (use v v' t False nostr in simp_all)
      with rest show ?thesis by simp
    qed
  qed
qed

lemma join_with_Cons: "join_with s (x # xs) = x @ (if xs = [] then [] else s @ join_with s xs)"
  by (cases xs) auto

lemma plain_stringify: "plain_value v \<Longrightarrow> \<exists>t. json_stringify bi wl v = Some t"
  by (cases v) (auto simp: plain_value_def)

lemma json_stringify_Obj:
  "json_stringify bi (Some ks) (Obj kvs) =
     Some (''{'' @ join_with '','' (concat (map (property_text bi (Some ks) (map_of kvs)) ks)) @ ''}'')"
  by (simp add: property_text_def [abs_def])

lemma rows_inj:
  assumes ok: "number_text_ok bi nums"
      and m: "\<forall>k \<in> set ks. \<exists>v. m k = Some v \<and> plain_value v \<and> (\<forall>q. v = Num (Fin q) \<longrightarrow> q \<in> set nums)"
      and m': "\<forall>k \<in> set ks. \<exists>v. m' k = Some v \<and> plain_value v \<and> (\<forall>q. v = Num (Fin q) \<longrightarrow> q \<in> set nums)"
      and eq: "join_with '','' (concat (map (property_text bi wl m) ks)) @ CHR ''}'' # z
             = join_with '','' (concat (map (property_text bi wl m') ks)) @ CHR ''}'' # z'"
  shows "\<forall>k \<in> set ks. m k = m' k"
  using m m' eq
proof (induction ks arbitrary: z z')
  case Nil
  then show ?case by simp
next
  case (Cons k rest)
  from Cons.prems(1) obtain v where v: "m k = Some v" "plain_value v"
    "\<forall>q. v = Num (Fin q) \<longrightarrow> q \<in> set nums" by auto
  from Cons.prems(2) obtain v' where v': "m' k = Some v'" "plain_value v'"
    "\<forall>q. v' = Num (Fin q) \<longrightarrow> q \<in> set nums" by auto
  from v(2) obtain t where t: "json_stringify bi wl v = Some t" using plain_stringify by blast
  from v'(2) obtain t' where t': "json_stringify bi wl v' = Some t'" using plain_stringify by blast
  let ?R = "concat (map (property_text bi wl m) rest)"
  let ?R' = "concat (map (property_text bi wl m') rest)"
  have row: "property_text bi wl m k = [json_quote k @ '':'' @ t]"
            "property_text bi wl m' k = [json_quote k @ '':'' @ t']"
    using v t v' t' by (simp_all add: property_text_def)
  have empty: "?R = [] \<longleftrightarrow> rest = []" "?R' = [] \<longleftrightarrow> rest = []"
  proof -
    have "property_text bi wl m j \<noteq> []" if "j \<in> set rest" for j
      using Cons.prems(1) that plain_stringify [of _ bi wl]
      by (fastforce simp: property_text_def)
    moreover have "property_text bi wl m' j \<noteq> []" if "j \<in> set rest" for j
      using Cons.prems(2) that plain_stringify [of _ bi wl]
      by (fastforce simp: property_text_def)
    ultimately show "?R = [] \<longleftrightarrow> rest = []" "?R' = [] \<longleftrightarrow> rest = []"
      by (cases rest; auto)+
  qed
  show ?case
  proof (cases "rest = []")
    case True
    with Cons.prems(3) row have "t @ CHR ''}'' # z = t' @ CHR ''}'' # z'"
      by simp
    with value_text_cut [OF ok v(2,3) v'(2,3) t t', of "CHR ''}''" "CHR ''}''" z z']
    have "v = v'" by simp
    with True v v' show ?thesis by simp
  next
    case False
    with Cons.prems(3) row empty
    have "t @ CHR '','' # (join_with '','' ?R @ CHR ''}'' # z)
        = t' @ CHR '','' # (join_with '','' ?R' @ CHR ''}'' # z')"
      by (simp add: join_with_Cons del: concat_eq_Nil_conv)
    with value_text_cut [OF ok v(2,3) v'(2,3) t t', of "CHR '',''" "CHR '',''"
           "join_with '','' ?R @ CHR ''}'' # z" "join_with '','' ?R' @ CHR ''}'' # z'"]
    have same: "v = v'" and tail: "join_with '','' ?R @ CHR ''}'' # z = join_with '','' ?R' @ CHR ''}'' # z'"
      by simp_all
    from Cons.IH [OF _ _ tail] Cons.prems(1,2) have "\<forall>j \<in> set rest. m j = m' j" by simp
    with same v v' show ?thesis by simp
  qed
qed

lemma numbers_of_member: "(k, Num (Fin q)) \<in> set ps \<Longrightarrow> q \<in> set (numbers_of ps)"
  by (force simp: numbers_of_def)

lemma getCacheKey_values:
  assumes keys: "fst ` set ps = fst ` set qs"
      and plain: "list_all (\<lambda>kv. plain_value (snd kv)) ps" "list_all (\<lambda>kv. plain_value (snd kv)) qs"
      and ok: "number_text_ok bi (numbers_of ps @ numbers_of qs)"
      and eq: "getCacheKey bi prefix ps = getCacheKey bi prefix qs"
  shows "map_of ps = map_of qs"
proof -
  let ?ks = "property_list (sort (map fst ps))"
  let ?nums = "numbers_of ps @ numbers_of qs"
  have ks: "property_list (sort (map fst qs)) = ?ks" using sort_keys_eq [OF keys] by simp
  have set_ks: "set ?ks = fst ` set ps"
    using property_list_sorted [of "sort (map fst ps)"] by simp
  have present: "\<exists>v. map_of xs k = Some v \<and> plain_value v \<and> (\<forall>q. v = Num (Fin q) \<longrightarrow> q \<in> set (numbers_of xs))"
    if "k \<in> fst ` set xs" "list_all (\<lambda>kv. plain_value (snd kv)) xs" for xs k
  proof -
    from that(1) have "k \<in> dom (map_of xs)" by (simp add: dom_map_of_conv_image_fst)
    then obtain v where v: "map_of xs k = Some v" by auto
    then have "(k, v) \<in> set xs" by (rule map_of_SomeD)
    with that(2) v show ?thesis
      by (auto simp: list_all_iff intro: numbers_of_member)
  qed
  have p: "\<forall>k \<in> set ?ks. \<exists>v. map_of ps k = Some v \<and> plain_value v \<and> (\<forall>q. v = Num (Fin q) \<longrightarrow> q \<in> set ?nums)"
  proof
    fix k assume "k \<in> set ?ks"
    with set_ks have "k \<in> fst ` set ps" by simp
    from present [OF this plain(1)] show "\<exists>v. map_of ps k = Some v \<and> plain_value v \<and> (\<forall>q. v = Num (Fin q) \<longrightarrow> q \<in> set ?nums)"
      by auto
  qed
  have q: "\<forall>k \<in> set ?ks. \<exists>v. map_of qs k = Some v \<and> plain_value v \<and> (\<forall>q. v = Num (Fin q) \<longrightarrow> q \<in> set ?nums)"
  proof
    fix k assume "k \<in> set ?ks"
    with set_ks keys have "k \<in> fst ` set qs" by simp
    from present [OF this plain(2)] show "\<exists>v. map_of qs k = Some v \<and> plain_value v \<and> (\<forall>q. v = Num (Fin q) \<longrightarrow> q \<in> set ?nums)"
      by auto
  qed
  from eq have "join_with '','' (concat (map (property_text bi (Some ?ks) (map_of ps)) ?ks)) @ CHR ''}'' # []
              = join_with '','' (concat (map (property_text bi (Some ?ks) (map_of qs)) ?ks)) @ CHR ''}'' # []"
    by (simp add: getCacheKey_def json_stringify_Obj ks del: json_stringify.simps)
  from rows_inj [OF ok p q this] have same: "\<forall>k \<in> set ?ks. map_of ps k = map_of qs k" .
  show ?thesis
  proof
    fix k
    show "map_of ps k = map_of qs k"
    proof (cases "k \<in> fst ` set ps")
      case True
      with set_ks have "k \<in> set ?ks" by blast
      with same show ?thesis by blast
    next
      case False
      with keys have "map_of ps k = None" "map_of qs k = None"
        by (simp_all add: map_of_eq_None_iff)
      then show ?thesis by simp
    qed
  qed
qed

lemma same_set_same_pairs:
  "distinct (map fst ps) \<Longrightarrow> distinct (map fst qs) \<Longrightarrow> set ps = set qs \<Longrightarrow> map_of ps = map_of qs"
  by (simp add: map_of_inject_set)

text \<open>
  C6, amended. For every prefix, two parameter objects with the same key-value pairs get
  the same cache key, in whatever order the keys were inserted; and two parameter objects
  with the same keys whose values are strings, finite numbers, booleans or \<^verbatim>\<open>null\<close> get
  different cache keys when the value of some key differs (the texts of the finite
  numbers involved being proper and different for different numbers, as the runtime's are).
\<close>

theorem getCacheKey_fingerprint:
  "(map_of ps = map_of qs \<longrightarrow> getCacheKey bi prefix ps = getCacheKey bi prefix qs)
   \<and> (distinct (map fst ps) \<and> distinct (map fst qs) \<and> set ps = set qs \<longrightarrow>
        getCacheKey bi prefix ps = getCacheKey bi prefix qs)
   \<and> (fst ` set ps = fst ` set qs
        \<and> list_all (\<lambda>kv. plain_value (snd kv)) ps \<and> list_all (\<lambda>kv. plain_value (snd kv)) qs
        \<and> number_text_ok bi (numbers_of ps @ numbers_of qs)
        \<and> map_of ps \<noteq> map_of qs \<longrightarrow>
        getCacheKey bi prefix ps \<noteq> getCacheKey bi prefix qs)"
  using getCacheKey_same_pairs [of ps qs bi prefix] same_set_same_pairs [of ps qs]
        getCacheKey_values [of ps qs bi prefix]
  by blast

text \<open>
  C6 as stated fails in its second half: \<^verbatim>\<open>JSON.stringify\<close> writes every number that is
  not finite as \<^verbatim>\<open>null\<close>, and the array replacer filters the keys of nested objects too.
  Two filters that differ in \<^verbatim>\<open>min_adClose\<close> (\<open>NaN\<close> and \<open>Infinity\<close>) get one cache
  key, and so do \<^verbatim>\<open>{a: {x: 1}}\<close> and \<^verbatim>\<open>{a: {x: 2}}\<close>.
\<close>

theorem getCacheKey_collision_counterexample:
  "getCacheKey example_builtins ''BREADTH'' (filterIdentity (example_params\<lparr>min_adClose := NaN\<rparr>))
     = getCacheKey example_builtins ''BREADTH'' (filterIdentity (example_params\<lparr>min_adClose := PInf\<rparr>))
   \<and> map_of (filterIdentity (example_params\<lparr>min_adClose := NaN\<rparr>)) ''min_ad'' = Some (Num NaN)
   \<and> map_of (filterIdentity (example_params\<lparr>min_adClose := PInf\<rparr>)) ''min_ad'' = Some (Num PInf)
   \<and> getCacheKey example_builtins ''NESTED'' (nested_params 1)
       = getCacheKey example_builtins ''NESTED'' (nested_params 2)
   \<and> nested_params 1 \<noteq> nested_params 2"
  by (simp add: getCacheKey_def filterIdentity_def example_params_def nested_params_def
        property_list_def)



lemma getCacheKey_example:
  "getCacheKey example_builtins ''VNINDEX'' [(''url'', Str ''u'')]
     = ''MBA_CACHE_V5_VNINDEX_{'' @ [CHR 0x22] @ ''url'' @ [CHR 0x22] @ '':'' @ [CHR 0x22] @ ''u''
       @ [CHR 0x22] @ ''}''"
  by (simp add: getCacheKey_def property_list_def CACHE_PREFIX_def json_quote_def
        json_escape_char_def)

lemma digit_char_number: "d < 10 \<Longrightarrow> digit_char d \<in> number_chars"
proof -
  have "list_all (\<lambda>d. digit_char d \<in> set ''0123456789+-.eE'') [0..<10]"
    by code_simp
  then show "d < 10 \<Longrightarrow> digit_char d \<in> number_chars"
    by (simp add: list_all_iff number_chars_def)
qed

lemma dec_str_number_chars: "set (dec_str n) \<subseteq> number_chars"
proof (induction n rule: dec_str.induct)
  case (1 n)
  show ?case
  proof (cases "n < 10")
    case True
    then show ?thesis by (simp add: dec_str.simps [of n] digit_char_number)
  next
    case False
    with 1 show ?thesis by (simp add: dec_str.simps [of n] digit_char_number)
  qed
qed

lemma dec_str_nonempty: "dec_str n \<noteq> []"
  by (subst dec_str.simps) simp

lemma number_text_ok_example: "number_text_ok example_builtins (map of_nat ns)"
  by (auto simp: number_text_ok_def example_builtins_def list_all_iff inj_on_def
        dec_str_nonempty dest: dec_str_inj dec_str_number_chars [THEN subsetD])

theorem getCacheKey_fingerprint_witness:
  "getCacheKey example_builtins ''BREADTH'' (rev (filterIdentity example_params))
     = getCacheKey example_builtins ''BREADTH'' (filterIdentity example_params)
   \<and> getCacheKey example_builtins ''BREADTH'' (filterIdentity (example_params\<lparr>max_adClose := Fin 600\<rparr>))
     \<noteq> getCacheKey example_builtins ''BREADTH'' (filterIdentity example_params)"
proof -
  let ?ps = "filterIdentity (example_params\<lparr>max_adClose := Fin 600\<rparr>)"
  let ?qs = "filterIdentity example_params"
  have "distinct (map fst ?qs)" by (simp add: filterIdentity_def)
  then have order: "getCacheKey example_builtins ''BREADTH'' (rev ?qs)
                  = getCacheKey example_builtins ''BREADTH'' ?qs"
    using getCacheKey_fingerprint [of "rev ?qs" ?qs example_builtins "''BREADTH''"]
    by (simp add: rev_map [symmetric])
  have nums: "number_text_ok example_builtins (numbers_of ?ps @ numbers_of ?qs)"
    using number_text_ok_example [of "[2, 600, 50, 200000, 2, 500, 50, 200000]"]
    by (simp add: filterIdentity_def example_params_def numbers_of_def)
  have keys: "fst ` set ?ps = fst ` set ?qs"
    by (simp add: filterIdentity_def)
  have plain: "list_all (\<lambda>kv. plain_value (snd kv)) ?ps" "list_all (\<lambda>kv. plain_value (snd kv)) ?qs"
    by (simp_all add: filterIdentity_def example_params_def plain_value_def)
  have "map_of ?ps ''max_ad'' \<noteq> map_of ?qs ''max_ad''"
    by (simp add: filterIdentity_def example_params_def)
  then have differ: "map_of ?ps \<noteq> map_of ?qs" by metis
  from nums keys plain differ
  have "getCacheKey example_builtins ''BREADTH'' ?ps \<noteq> getCacheKey example_builtins ''BREADTH'' ?qs"
    using getCacheKey_fingerprint [of ?ps ?qs example_builtins "''BREADTH''"] by blast
  with order show ?thesis by simp
qed

section \<open>Merging breadth points\<close>

lemma same_value_zero_iff: "same_value_zero a b \<longleftrightarrow> primitive a \<and> a = b"
  by (cases a) (auto simp: same_value_zero_def primitive_def)

lemma map_of_map_set:
  "primitive k' \<Longrightarrow> map_of (map_set m k v) k' = (if k = k' then Some v else map_of m k')"
  by (induction m) (auto simp: same_value_zero_iff)

lemma map_set_apart_head:
  "list_all (\<lambda>kv'. \<not> same_value_zero a (fst kv')) m \<Longrightarrow> \<not> same_value_zero a k \<Longrightarrow>
     list_all (\<lambda>kv'. \<not> same_value_zero a (fst kv')) (map_set m k v)"
  by (induction m) (auto simp: same_value_zero_iff)

lemma keys_apart_map_set: "keys_apart m \<Longrightarrow> keys_apart (map_set m k v)"
proof (induction m)
  case Nil
  then show ?case by simp
next
  case (Cons kv m)
  show ?case
  proof (cases "same_value_zero (fst kv) k")
    case True
    with Cons.prems show ?thesis by (cases kv) simp
  next
    case False
    with Cons show ?thesis by (cases kv) (simp add: map_set_apart_head)
  qed
qed

lemma keyed_map_set: "keyed m \<Longrightarrow> has_timestamp k p \<Longrightarrow> keyed (map_set m k p)"
  by (induction m) (auto simp: keyed_def same_value_zero_iff)

lemma setPoint_Inr:
  "setPoint m p = Inr m' \<Longrightarrow> \<exists>k. has_timestamp k p \<and> m' = map_set m k p"
  by (auto simp: setPoint_def has_timestamp_def dest!: bindE_Inr)

lemma setPoints_invariant:
  "setPoints m ps = Inr m' \<Longrightarrow> keyed m \<Longrightarrow> keys_apart m \<Longrightarrow> keyed m' \<and> keys_apart m'"
  unfolding setPoints_def
proof (induction ps arbitrary: m)
  case Nil
  then show ?case by simp
next
  case (Cons p ps)
  from Cons.prems(1) obtain m1 where m1: "setPoint m p = Inr m1" and rest: "foldE setPoint m1 ps = Inr m'"
    by (auto split: sum.splits)
  from setPoint_Inr [OF m1] Cons.prems(2,3) have "keyed m1" "keys_apart m1"
    by (auto intro: keyed_map_set keys_apart_map_set)
  with Cons.IH [OF rest] show ?case by simp
qed

lemma setPoints_map_of:
  "setPoints m ps = Inr m' \<Longrightarrow> primitive k \<Longrightarrow>
     map_of m' k = (case filter (has_timestamp k) ps of [] \<Rightarrow> map_of m k | q # qs \<Rightarrow> Some (last (q # qs)))"
  unfolding setPoints_def
proof (induction ps arbitrary: m)
  case Nil
  then show ?case by simp
next
  case (Cons p ps)
  from Cons.prems(1) obtain m1 where m1: "setPoint m p = Inr m1" and rest: "foldE setPoint m1 ps = Inr m'"
    by (auto split: sum.splits)
  from setPoint_Inr [OF m1] obtain kp where kp: "has_timestamp kp p" "m1 = map_set m kp p" by blast
  have here: "has_timestamp k p \<longleftrightarrow> kp = k" using kp(1) by (auto simp: has_timestamp_def)
  from Cons.IH [OF rest Cons.prems(2)] kp(2) Cons.prems(2) here show ?case
    by (auto simp: map_of_map_set split: list.splits)
qed

lemma keyed_filter:
  "keyed m \<Longrightarrow> keys_apart m \<Longrightarrow> primitive k \<Longrightarrow>
     filter (has_timestamp k) (map snd m) = (case map_of m k of None \<Rightarrow> [] | Some v \<Rightarrow> [v])"
proof (induction m)
  case Nil
  then show ?case by simp
next
  case (Cons kv m)
  obtain a b where kv: "kv = (a, b)" by (cases kv)
  from Cons.prems kv have ab: "has_timestamp a b" and km: "keyed m" and am: "keys_apart m"
    and apart: "list_all (\<lambda>kv'. \<not> same_value_zero a (fst kv')) m"
    by (simp_all add: keyed_def)
  have hb: "has_timestamp k b \<longleftrightarrow> a = k" using ab by (auto simp: has_timestamp_def)
  show ?case
  proof (cases "a = k")
    case True
    with apart Cons.prems(3) have "k \<notin> fst ` set m"
      by (auto simp: list_all_iff same_value_zero_iff)
    then have "map_of m k = None" by (simp add: map_of_eq_None_iff)
    with Cons.IH [OF km am Cons.prems(3)] True kv hb show ?thesis by simp
  next
    case False
    with Cons.IH [OF km am Cons.prems(3)] kv hb show ?thesis by simp
  qed
qed

lemma set_insert_cmp: "set (insert_cmp gt x ys) = insert x (set ys)"
  by (induction ys) auto

lemma set_sort_cmp: "set (sort_cmp gt xs) = set xs"
  by (induction xs) (auto simp: sort_cmp_def set_insert_cmp)

lemma length_filter_insert_cmp:
  "length (filter P (insert_cmp gt x ys)) = length (filter P (x # ys))"
  by (induction ys) auto

lemma length_filter_sort_cmp: "length (filter P (sort_cmp gt xs)) = length (filter P xs)"
  by (induction xs) (auto simp: sort_cmp_def length_filter_insert_cmp)

lemma length_sort_cmp: "length (sort_cmp gt xs) = length xs"
  using length_filter_sort_cmp [of "\<lambda>x. True" gt xs] by simp

lemma filter_sort_cmp_single:
  assumes "filter P xs = [v]"
  shows "filter P (sort_cmp gt xs) = [v]"
proof -
  have "length (filter P (sort_cmp gt xs)) = 1"
    using assms by (simp add: length_filter_sort_cmp)
  then obtain w where w: "filter P (sort_cmp gt xs) = [w]"
    by (cases "filter P (sort_cmp gt xs)") auto
  then have "w \<in> set (filter P (sort_cmp gt xs))" by simp
  then have "w \<in> set (filter P xs)" by (simp add: set_sort_cmp)
  with assms w show ?thesis by simp
qed

lemma distinct_map_insert_cmp:
  "distinct (map f (insert_cmp gt x ys)) = distinct (map f (x # ys))"
  by (induction ys) (auto simp: set_insert_cmp)

lemma distinct_map_sort_cmp: "distinct (map f (sort_cmp gt xs)) = distinct (map f xs)"
  by (induction xs)
     (auto simp: sort_cmp_def distinct_map_insert_cmp set_sort_cmp [unfolded sort_cmp_def])

lemma finite_timestamp_num:
  "finite_timestamp a = Some s \<Longrightarrow> timestamp_num bi a = Fin s"
  by (auto simp: finite_timestamp_def timestamp_num_def to_number_def
        split: sum.splits jsval.splits jsnum.splits)

lemma by_timestamp_finite:
  "finite_timestamp a = Some s \<Longrightarrow> finite_timestamp b = Some t \<Longrightarrow> by_timestamp bi a b \<longleftrightarrow> t < s"
  by (simp add: by_timestamp_def finite_timestamp_num js_sub_def js_gt_def)

lemma sorted_insert_cmp:
  assumes "\<forall>y \<in> set (x # ys). finite_timestamp y \<noteq> None" "sorted (map timestamp_rat ys)"
  shows "sorted (map timestamp_rat (insert_cmp (by_timestamp bi) x ys))"
  using assms
proof (induction ys)
  case Nil
  then show ?case by simp
next
  case (Cons y ys)
  from Cons.prems(1) obtain s t where st: "finite_timestamp x = Some s" "finite_timestamp y = Some t"
    by auto
  then have gt: "by_timestamp bi x y \<longleftrightarrow> t < s" by (rule by_timestamp_finite)
  have r: "timestamp_rat x = s" "timestamp_rat y = t" using st by (simp_all add: timestamp_rat_def)
  show ?case
  proof (cases "t < s")
    case True
    from Cons.prems have "sorted (map timestamp_rat (insert_cmp (by_timestamp bi) x ys))"
      by (intro Cons.IH) auto
    with True gt r Cons.prems(2) show ?thesis
      by (auto simp: set_insert_cmp)
  next
    case False
    with gt r Cons.prems(2) show ?thesis by auto
  qed
qed

lemma sorted_sort_cmp:
  "\<forall>y \<in> set xs. finite_timestamp y \<noteq> None \<Longrightarrow>
     sorted (map timestamp_rat (sort_cmp (by_timestamp bi) xs))"
proof (induction xs)
  case Nil
  then show ?case by (simp add: sort_cmp_def)
next
  case (Cons x xs)
  then have "sorted (map timestamp_rat (sort_cmp (by_timestamp bi) xs))" by simp
  with Cons.prems
  have "sorted (map timestamp_rat (insert_cmp (by_timestamp bi) x (sort_cmp (by_timestamp bi) xs)))"
    by (intro sorted_insert_cmp) (auto simp: set_sort_cmp)
  then show ?case by (simp add: sort_cmp_def)
qed

lemma distinct_timestamps:
  "keyed m \<Longrightarrow> keys_apart m \<Longrightarrow> \<forall>p \<in> set (map snd m). finite_timestamp p \<noteq> None \<Longrightarrow>
     distinct (map timestamp_rat (map snd m))"
proof (induction m)
  case Nil
  then show ?case by simp
next
  case (Cons kv m)
  obtain a b where kv: "kv = (a, b)" by (cases kv)
  from Cons.prems kv have ab: "has_timestamp a b" and km: "keyed m" and am: "keys_apart m"
    and apart: "list_all (\<lambda>kv'. \<not> same_value_zero a (fst kv')) m"
    by (simp_all add: keyed_def)
  from Cons.prems(3) kv obtain s where s: "finite_timestamp b = Some s" by auto
  with ab have a: "a = Num (Fin s)"
    by (auto simp: has_timestamp_def finite_timestamp_def split: jsval.splits jsnum.splits)
  have "timestamp_rat b \<notin> timestamp_rat ` snd ` set m"
  proof
    assume "timestamp_rat b \<in> timestamp_rat ` snd ` set m"
    then obtain a' b' where in_m: "(a', b') \<in> set m" and eq: "timestamp_rat b' = timestamp_rat b"
      by force
    from Cons.prems(3) in_m obtain t where t: "finite_timestamp b' = Some t" by force
    from km in_m have "has_timestamp a' b'" by (auto simp: keyed_def list_all_iff)
    with t have "a' = Num (Fin t)"
      by (auto simp: has_timestamp_def finite_timestamp_def split: jsval.splits jsnum.splits)
    moreover from eq s t have "t = s" by (simp add: timestamp_rat_def)
    ultimately have "same_value_zero a a'" using a by (simp add: same_value_zero_iff primitive_def)
    with apart in_m show False by (auto simp: list_all_iff)
  qed
  with Cons.IH [OF km am] Cons.prems(3) kv show ?case by (simp add: image_image)
qed

lemma mergePoints_Inr:
  assumes "mergePoints bi sfh icv cached history latest = Inr res"
  shows "\<exists>m2 m. setPoints m2 latest = Inr m \<and> keyed m \<and> keys_apart m
           \<and> res = sort_cmp (by_timestamp bi) (map snd m)"
proof -
  from assms obtain m1 m2 m where
    m1: "(if \<not> sfh \<and> icv then setPoints [] cached else Inr []) = Inr m1" and
    m2: "(if sfh then setPoints m1 history else Inr m1) = Inr m2" and
    m: "setPoints m2 latest = Inr m" and
    res: "res = sort_cmp (by_timestamp bi) (map snd m)"
    unfolding mergePoints_def by (auto dest!: bindE_Inr)
  have "keyed m1 \<and> keys_apart m1"
    using m1 setPoints_invariant [of "[]" cached m1] by (auto simp: keyed_def split: if_splits)
  then have "keyed m2 \<and> keys_apart m2"
    using m2 setPoints_invariant [of m1 history m2] by (auto split: if_splits)
  then have "keyed m \<and> keys_apart m"
    using m setPoints_invariant [of m2 latest m] by auto
  with m res show ?thesis by blast
qed

lemma mergePoints_latest:
  assumes "mergePoints bi sfh icv cached history latest = Inr res"
      and "l \<in> set latest" "has_timestamp k l" "primitive k"
  shows "filter (has_timestamp k) res = [last (filter (has_timestamp k) latest)]"
proof -
  from mergePoints_Inr [OF assms(1)] obtain m2 m where
    m: "setPoints m2 latest = Inr m" "keyed m" "keys_apart m"
    and res: "res = sort_cmp (by_timestamp bi) (map snd m)" by blast
  from assms(2,3) have "filter (has_timestamp k) latest \<noteq> []"
    by (auto simp: filter_empty_conv)
  with setPoints_map_of [OF m(1) assms(4)]
  have "map_of m k = Some (last (filter (has_timestamp k) latest))"
    by (auto split: list.splits)
  with keyed_filter [OF m(2,3) assms(4)]
  have "filter (has_timestamp k) (map snd m) = [last (filter (has_timestamp k) latest)]"
    by simp
  with res show ?thesis by (simp add: filter_sort_cmp_single)
qed

lemma mergePoints_sorted:
  assumes "mergePoints bi sfh icv cached history latest = Inr res"
      and "\<forall>p \<in> set res. finite_timestamp p \<noteq> None"
  shows "sorted (map timestamp_rat res) \<and> distinct (map timestamp_rat res)"
proof -
  from mergePoints_Inr [OF assms(1)] obtain m2 m where
    m: "keyed m" "keys_apart m"
    and res: "res = sort_cmp (by_timestamp bi) (map snd m)" by blast
  from assms(2) res have fin: "\<forall>p \<in> set (map snd m). finite_timestamp p \<noteq> None"
    by (simp add: set_sort_cmp)
  with res have "sorted (map timestamp_rat res)" by (simp add: sorted_sort_cmp)
  moreover from distinct_timestamps [OF m fin] res have "distinct (map timestamp_rat res)"
    by (simp add: distinct_map_sort_cmp)
  ultimately show ?thesis by simp
qed

lemma fetchBreadthData_merged:
  fixes bi params st now1 latest history now2
  defines "key \<equiv> getCacheKey bi ''BREADTH'' (filterIdentity params)"
  defines "hit \<equiv> cachedBreadth bi st key now1"
  defines "cachedData \<equiv> (case hit of Some (xs, age) \<Rightarrow> xs | None \<Rightarrow> [])"
  defines "sfh \<equiv> (hit = None \<or> length cachedData < 50)"
  assumes "\<not> (\<exists>xs age. hit = Some (xs, age) \<and> js_lt age (Fin BREADTH_MIN_FRESH))"
      and "processRaw bi (fetchOrEmpty latest) = Inr lp"
      and "processRaw bi (if sfh then fetchOrEmpty history else Arr []) = Inr hp"
      and "mergePoints bi sfh (hit \<noteq> None) cachedData hp lp = Inr res"
  shows "resolved (fetchBreadthData bi params st now1 latest history now2) = Inr res"
proof (cases "cachedBreadth bi st (getCacheKey bi ''BREADTH'' (filterIdentity params)) now1")
  case None
  with assms(5-8) show ?thesis
    unfolding sfh_def cachedData_def hit_def key_def
    by (simp add: fetchBreadthData_def Let_def)
next
  case (Some xa)
  obtain xs age where xa: "xa = (xs, age)" by (cases xa)
  with Some assms(5-8) show ?thesis
    unfolding sfh_def cachedData_def hit_def key_def
    by (simp add: fetchBreadthData_def Let_def)
qed

text \<open>
  C4. The merged result of \<^verbatim>\<open>fetchBreadthData\<close> is \<open>mergePoints\<close> of the cached points
  (used only when history was not refetched), the history points and the latest points.
  For every timestamp of a latest point exactly one point with that timestamp is retained,
  and it is the latest point (the last one, should the latest fetch repeat the timestamp),
  whatever the cache and the history hold for it; the result is in strictly ascending
  order of timestamp (for timestamps that are finite numbers, as those of
  \<^verbatim>\<open>BreadthDataPoint\<close> are).
\<close>

theorem fetchBreadthData_latest_wins:
  fixes bi params st now1 latest history now2
  defines "key \<equiv> getCacheKey bi ''BREADTH'' (filterIdentity params)"
  defines "hit \<equiv> cachedBreadth bi st key now1"
  defines "cachedData \<equiv> (case hit of Some (xs, age) \<Rightarrow> xs | None \<Rightarrow> [])"
  defines "sfh \<equiv> (hit = None \<or> length cachedData < 50)"
  shows "(mergePoints bi refetched valid cached hist lat = Inr res \<and> l \<in> set lat
            \<and> has_timestamp k l \<and> primitive k \<longrightarrow>
          filter (has_timestamp k) res = [last (filter (has_timestamp k) lat)])
       \<and> (mergePoints bi refetched valid cached hist lat = Inr res
            \<and> (\<forall>p \<in> set res. finite_timestamp p \<noteq> None) \<longrightarrow>
          sorted (map timestamp_rat res) \<and> distinct (map timestamp_rat res))
       \<and> (\<not> (\<exists>xs age. hit = Some (xs, age) \<and> js_lt age (Fin BREADTH_MIN_FRESH))
            \<and> processRaw bi (fetchOrEmpty latest) = Inr lp
            \<and> processRaw bi (if sfh then fetchOrEmpty history else Arr []) = Inr hp
            \<and> mergePoints bi sfh (hit \<noteq> None) cachedData hp lp = Inr merged \<longrightarrow>
          resolved (fetchBreadthData bi params st now1 latest history now2) = Inr merged)"
  unfolding sfh_def cachedData_def hit_def key_def
  using mergePoints_latest [of bi refetched valid cached hist lat res l k]
        mergePoints_sorted [of bi refetched valid cached hist lat res]
        fetchBreadthData_merged [of bi st params now1 latest lp history hp merged now2]
  by blast

lemma processRaw_day_points:
  "processRaw bi (Arr (day_point ts c # ps)) = Inr (day_point ts c # ps)"
  by (simp add: processRaw_def is_array_def has_prop_def day_point_def breadth_point_def
        is_digit_def)

lemma fetchOrEmpty_answers: "fetchOrEmpty (answers v) = v"
  by (simp add: fetchOrEmpty_def fetchWithFallback_def answers_def)

lemma finite_timestamp_day_point: "finite_timestamp (day_point ts c) = Some ts"
  by (simp add: finite_timestamp_def day_point_def breadth_point_def)

lemma has_timestamp_day_point: "has_timestamp k (day_point ts c) \<longleftrightarrow> k = Num (Fin ts)"
  by (auto simp: has_timestamp_def day_point_def breadth_point_def)

theorem fetchBreadthData_latest_wins_witness:
  "resolved (fetchBreadthData example_builtins example_params empty_store 0
      (answers (Arr [day_point 1704153600000 45]))
      (answers (Arr [day_point 1704067200000 40, day_point 1704153600000 41])) 1)
     = Inr [day_point 1704067200000 40, day_point 1704153600000 45]
   \<and> filter (has_timestamp (Num (Fin 1704153600000)))
       [day_point 1704067200000 40, day_point 1704153600000 45] = [day_point 1704153600000 45]
   \<and> sorted (map timestamp_rat [day_point 1704067200000 40, day_point 1704153600000 45])"
proof -
  let ?l = "day_point 1704153600000 45"
  let ?h1 = "day_point 1704067200000 40"
  let ?h2 = "day_point 1704153600000 41"
  have merge: "mergePoints example_builtins True False [] [?h1, ?h2] [?l] = Inr [?h1, ?l]"
    by (simp add: mergePoints_def setPoints_def setPoint_def same_value_zero_def sort_cmp_def
          by_timestamp_def timestamp_num_def to_number_def js_sub_def js_gt_def
          day_point_def breadth_point_def)
  have wins: "filter (has_timestamp (Num (Fin 1704153600000))) [?h1, ?l] = [?l]"
    using fetchBreadthData_latest_wins [where bi = example_builtins and refetched = True
            and valid = False and cached = "[]" and hist = "[?h1, ?h2]" and lat = "[?l]"
            and res = "[?h1, ?l]" and l = ?l and k = "Num (Fin 1704153600000)"] merge
    by (simp add: has_timestamp_day_point primitive_def)
  have sorted: "sorted (map timestamp_rat [?h1, ?l])"
    using fetchBreadthData_latest_wins [where bi = example_builtins and refetched = True
            and valid = False and cached = "[]" and hist = "[?h1, ?h2]" and lat = "[?l]"
            and res = "[?h1, ?l]"] merge
    by (simp add: finite_timestamp_day_point)
  have "resolved (fetchBreadthData example_builtins example_params empty_store 0
      (answers (Arr [?l])) (answers (Arr [?h1, ?h2])) 1) = Inr [?h1, ?l]"
    using fetchBreadthData_latest_wins [where bi = example_builtins and params = example_params
            and st = empty_store and ?now1.0 = 0 and latest = "answers (Arr [?l])"
            and lp = "[?l]" and history = "answers (Arr [?h1, ?h2])" and hp = "[?h1, ?h2]"
            and merged = "[?h1, ?l]" and ?now2.0 = 1] merge
    by (simp add: fetchOrEmpty_answers processRaw_day_points)
  with wins sorted show ?thesis by simp
qed

section \<open>A stale cache and a failing network\<close>

lemma processRaw_empty: "processRaw bi (Arr []) = Inr []"
  by (simp add: processRaw_def is_array_def is_digit_def mapBreadthData_def)

lemma map_set_fresh:
  "list_all (\<lambda>kv. \<not> same_value_zero (fst kv) k) m \<Longrightarrow> map_set m k v = m @ [(k, v)]"
  by (induction m) auto

lemma finite_timestamp_has:
  "finite_timestamp p = Some t \<Longrightarrow> has_timestamp k p \<longleftrightarrow> k = Num (Fin t)"
  by (auto simp: finite_timestamp_def has_timestamp_def split: sum.splits jsval.splits jsnum.splits)

lemma setPoints_distinct:
  assumes "\<forall>p \<in> set ps. finite_timestamp p \<noteq> None"
      and "distinct (map timestamp_rat ps)"
      and "\<forall>p \<in> set ps. Num (Fin (timestamp_rat p)) \<notin> fst ` set m"
  shows "setPoints m ps = Inr (m @ map (\<lambda>p. (Num (Fin (timestamp_rat p)), p)) ps)"
  using assms unfolding setPoints_def
proof (induction ps arbitrary: m)
  case Nil
  then show ?case by simp
next
  case (Cons p ps)
  from Cons.prems(1) obtain t where t: "finite_timestamp p = Some t" by auto
  then have r: "timestamp_rat p = t" by (simp add: timestamp_rat_def)
  have gp: "get_prop p ''timestamp'' = Inr (Num (Fin t))"
    using finite_timestamp_has [OF t, of "Num (Fin t)"] by (simp add: has_timestamp_def)
  from Cons.prems(3) r have "Num (Fin t) \<notin> fst ` set m" by simp
  then have "list_all (\<lambda>kv. \<not> same_value_zero (fst kv) (Num (Fin t))) m"
    by (force simp: list_all_iff same_value_zero_iff)
  then have step: "setPoint m p = Inr (m @ [(Num (Fin t), p)])"
    by (simp add: setPoint_def gp map_set_fresh)
  have "foldE setPoint (m @ [(Num (Fin t), p)]) ps
          = Inr ((m @ [(Num (Fin t), p)]) @ map (\<lambda>p. (Num (Fin (timestamp_rat p)), p)) ps)"
  proof (rule Cons.IH)
    show "\<forall>p \<in> set ps. finite_timestamp p \<noteq> None" using Cons.prems(1) by simp
    show "distinct (map timestamp_rat ps)" using Cons.prems(2) by simp
    show "\<forall>q \<in> set ps. Num (Fin (timestamp_rat q)) \<notin> fst ` set (m @ [(Num (Fin t), p)])"
      using Cons.prems(2,3) r by (auto simp: image_iff)
  qed
  with step r show ?case by simp
qed

lemma mergePoints_cached:
  assumes "\<forall>p \<in> set cached. finite_timestamp p \<noteq> None" "distinct (map timestamp_rat cached)"
  shows "mergePoints bi False True cached [] [] = Inr (sort_cmp (by_timestamp bi) cached)"
proof -
  have "setPoints [] cached = Inr (map (\<lambda>p. (Num (Fin (timestamp_rat p)), p)) cached)"
    using setPoints_distinct [OF assms, of "[]"] by simp
  then show ?thesis
    by (simp add: mergePoints_def setPoints_def [of _ "[]"] comp_def)
qed

lemma json_roundtrip_same_set:
  assumes "json_roundtrip (Arr xs) = Arr xs" "set ys \<subseteq> set xs"
  shows "json_roundtrip (Arr ys) = Arr ys"
proof -
  let ?f = "\<lambda>x. if x = Undefined then Null else json_roundtrip x"
  from assms(1) have "map ?f xs = xs" by simp
  then have "\<forall>x \<in> set xs. ?f x = x" by (induction xs) auto
  with assms(2) have "\<forall>x \<in> set ys. ?f x = x" by blast
  then have "map ?f ys = ys" by (induction ys) auto
  then show ?thesis by simp
qed

lemma cachedBreadth_saved:
  assumes "items st key = Some (Json (Obj [(''timestamp'', Num (Fin w)), (''data'', Arr xs)]))"
      and "xs \<noteq> []"
  shows "cachedBreadth bi st key now = Some (xs, Fin (now - w))"
  using assms
  by (simp add: cachedBreadth_def loadFromCache_def loadFromCache_try_def to_number_def
        js_sub_def)

text \<open>
  C9. Let the cache hold at least 50 points under the key of the filter (with finite,
  pairwise different timestamps, as every list this function saves has), let its age be
  at least the fresh window of five minutes, and let the latest request, the only one
  made, fail. Then \<^verbatim>\<open>fetchBreadthData\<close> resolves to the cached points sorted by timestamp
  and, the store taking the write, saves them again with the written-at time \<open>now2\<close>; a
  call that follows within five minutes of that write resolves to the same list and
  makes no request.
\<close>

theorem fetchBreadthData_stale_refresh:
  fixes bi params st now1 latest history now2
  defines "key \<equiv> getCacheKey bi ''BREADTH'' (filterIdentity params)"
  defines "out \<equiv> fetchBreadthData bi params st now1 latest history now2"
  assumes cache: "cachedBreadth bi st key now1 = Some (cached, age)"
      and long: "50 \<le> length cached"
      and stale: "js_ge age (Fin BREADTH_MIN_FRESH)"
      and fails: "fetchWithFallback latest = Inl e"
      and finite: "\<forall>p \<in> set cached. finite_timestamp p \<noteq> None"
      and apart: "distinct (map timestamp_rat cached)"
      and clean: "json_roundtrip (Arr cached) = Arr cached"
      and room: "\<not> full st"
      and soon: "now3 - now2 < BREADTH_MIN_FRESH"
  shows "resolved out = Inr (sort_cmp (by_timestamp bi) cached)
       \<and> set (sort_cmp (by_timestamp bi) cached) = set cached
       \<and> length (sort_cmp (by_timestamp bi) cached) = length cached
       \<and> sorted (map timestamp_rat (sort_cmp (by_timestamp bi) cached))
       \<and> requests out = [LatestRequest]
       \<and> items (store out) key =
           Some (Json (Obj [(''timestamp'', Num (Fin now2)),
                            (''data'', Arr (sort_cmp (by_timestamp bi) cached))]))
       \<and> resolved (fetchBreadthData bi params (store out) now3 latest' history' now4)
           = Inr (sort_cmp (by_timestamp bi) cached)
       \<and> requests (fetchBreadthData bi params (store out) now3 latest' history' now4) = []"
proof -
  let ?res = "sort_cmp (by_timestamp bi) cached"
  have ne: "?res \<noteq> []" using long length_sort_cmp [of "by_timestamp bi" cached] by auto
  have notfresh: "\<not> js_lt age (Fin BREADTH_MIN_FRESH)" using stale by (simp add: js_ge_def)
  have raw: "fetchOrEmpty latest = Arr []" using fails by (simp add: fetchOrEmpty_def)
  have merged: "mergePoints bi False True cached [] [] = Inr ?res"
    using finite apart by (rule mergePoints_cached)
  have out: "out = \<lparr>resolved = Inr ?res, store = saveToCache st key (Arr ?res) now2,
                     requests = [LatestRequest]\<rparr>"
    using cache long notfresh raw merged ne
    by (simp add: out_def key_def fetchBreadthData_def Let_def processRaw_empty)
  have "json_roundtrip (Arr ?res) = Arr ?res"
    using clean by (rule json_roundtrip_same_set) (simp add: set_sort_cmp)
  then have saved: "items (store out) key =
           Some (Json (Obj [(''timestamp'', Num (Fin now2)), (''data'', Arr ?res)]))"
    using room by (simp add: out saveToCache_def setItem_def)
  have again: "cachedBreadth bi (store out) key now3 = Some (?res, Fin (now3 - now2))"
    using saved ne by (rule cachedBreadth_saved)
  have next_call: "fetchBreadthData bi params (store out) now3 latest' history' now4
          = \<lparr>resolved = Inr ?res, store = store out, requests = []\<rparr>"
    using again soon by (simp add: fetchBreadthData_def Let_def key_def)
  have "sorted (map timestamp_rat ?res)" using finite by (rule sorted_sort_cmp)
  with out saved next_call show ?thesis
    by (simp add: set_sort_cmp length_sort_cmp)
qed

lemma json_roundtrip_day_point: "json_roundtrip (day_point ts c) = day_point ts c"
  by (simp add: day_point_def breadth_point_def calc_def js_gt_def)

lemma day_point_defined: "day_point ts c \<noteq> Undefined"
  by (simp add: day_point_def breadth_point_def)

lemma cached_days_facts:
  "length cached_days = 50"
  "\<forall>p \<in> set cached_days. finite_timestamp p \<noteq> None"
  "distinct (map timestamp_rat cached_days)"
  "json_roundtrip (Arr cached_days) = Arr cached_days"
proof -
  show "length cached_days = 50" by (simp add: cached_days_def)
  show "\<forall>p \<in> set cached_days. finite_timestamp p \<noteq> None"
    by (auto simp: cached_days_def finite_timestamp_day_point)
  have "map timestamp_rat cached_days
          = map (\<lambda>i. 1704067200000 + 86400000 * of_nat i) [0..<50]"
    by (simp add: cached_days_def timestamp_rat_def finite_timestamp_day_point comp_def)
  moreover have "inj_on (\<lambda>i. 1704067200000 + 86400000 * (of_nat i :: rat)) (set [0..<50])"
    by (simp add: inj_on_def)
  ultimately show "distinct (map timestamp_rat cached_days)"
    by (simp add: distinct_map)
  have "map (\<lambda>x. if x = Undefined then Null else json_roundtrip x) cached_days = cached_days"
    by (intro map_idI) (auto simp: cached_days_def json_roundtrip_day_point day_point_defined)
  then show "json_roundtrip (Arr cached_days) = Arr cached_days" by simp
qed

theorem fetchBreadthData_stale_refresh_witness:
  "resolved (fetchBreadthData example_builtins example_params stale_breadth_store 300000
      unreachable unreachable 300500)
     = Inr (sort_cmp (by_timestamp example_builtins) cached_days)
   \<and> requests (fetchBreadthData example_builtins example_params stale_breadth_store 300000
      unreachable unreachable 300500) = [LatestRequest]
   \<and> items (store (fetchBreadthData example_builtins example_params stale_breadth_store 300000
      unreachable unreachable 300500)) breadth_key
     = Some (Json (Obj [(''timestamp'', Num (Fin 300500)),
          (''data'', Arr (sort_cmp (by_timestamp example_builtins) cached_days))]))
   \<and> requests (fetchBreadthData example_builtins example_params
        (store (fetchBreadthData example_builtins example_params stale_breadth_store 300000
           unreachable unreachable 300500))
        300600 (answers (Arr [])) unreachable 300700) = []"
proof -
  have cache: "cachedBreadth example_builtins stale_breadth_store
                 (getCacheKey example_builtins ''BREADTH'' (filterIdentity example_params)) 300000
               = Some (cached_days, Fin 300000)"
  proof -
    have "cached_days \<noteq> []" using cached_days_facts(1) by auto
    moreover have "items stale_breadth_store breadth_key
        = Some (Json (Obj [(''timestamp'', Num (Fin 0)), (''data'', Arr cached_days)]))"
      by (simp add: stale_breadth_store_def)
    ultimately show ?thesis
      using cachedBreadth_saved [of stale_breadth_store breadth_key 0 cached_days
              example_builtins 300000]
      by (simp add: breadth_key_def)
  qed
  have stale: "js_ge (Fin 300000) (Fin BREADTH_MIN_FRESH)"
    by (simp add: js_ge_def BREADTH_MIN_FRESH_def)
  have fails: "fetchWithFallback unreachable = Inl FetchError"
    by (simp add: fetchWithFallback_def unreachable_def)
  have room: "\<not> full stale_breadth_store" by (simp add: stale_breadth_store_def)
  have soon: "(300600 :: rat) - 300500 < BREADTH_MIN_FRESH" by (simp add: BREADTH_MIN_FRESH_def)
  from fetchBreadthData_stale_refresh [OF cache _ stale fails cached_days_facts(2,3,4) room soon,
         where latest' = "answers (Arr [])" and history' = unreachable and ?now4.0 = 300700]
       cached_days_facts(1)
  show ?thesis by (simp add: breadth_key_def)
qed

end
